theory Spec2Isabelle
  imports Complex_Main "HOL-Library.Sublist"
begin

section \<open>Strings\<close>

text \<open>
  Python strings are modelled as \<^typ>\<open>string\<close>. The character predicates are the ASCII
  ones: a text is a list of ASCII characters, and a character above 127 counts as neither
  letter, digit nor space. Python's own classes are Unicode-aware (\<open>U+00A0\<close> and
  \<open>U+0085\<close> are spaces for \<open>\s\<close>, \<open>strip\<close> and \<open>split\<close>, an accented letter is a word
  character for \<open>\w\<close> and \<open>\b\<close>), so on a text with such characters the model and the
  code can differ; the evaluations below are on ASCII texts, and the general theorems use
  no property of a character class beyond \<open>isupper\<close> and \<open>lower\<close> being functions of the
  character. The helpers carry the names of the Python methods they stand for
  (\<open>str.lower\<close>, \<open>str.strip\<close>, \<open>str.split\<close>, \<open>str.isdigit\<close>, \<open>str.startswith\<close>,
  \<open>sub in s\<close>, \<open>str.find\<close>, \<open>str.title\<close>).
\<close>

definition in_range :: "char \<Rightarrow> char \<Rightarrow> char \<Rightarrow> bool" where
  "in_range lo hi c = ((of_char lo :: int) \<le> of_char c \<and> (of_char c :: int) \<le> of_char hi)"

definition isupper :: "char \<Rightarrow> bool" where
  "isupper c = in_range CHR ''A'' CHR ''Z'' c"

definition islower :: "char \<Rightarrow> bool" where
  "islower c = in_range CHR ''a'' CHR ''z'' c"

definition isdigit :: "char \<Rightarrow> bool" where
  "isdigit c = in_range CHR ''0'' CHR ''9'' c"

definition isalpha :: "char \<Rightarrow> bool" where
  "isalpha c = (isupper c \<or> islower c)"

definition isspace :: "char \<Rightarrow> bool" where
  "isspace c = (c = CHR '' '' \<or> in_range (CHR 0x09) (CHR 0x0D) c \<or> in_range (CHR 0x1C) (CHR 0x1F) c)"

definition isword :: "char \<Rightarrow> bool" where
  "isword c = (isalpha c \<or> isdigit c \<or> c = CHR ''_'')"

definition lower_chr :: "char \<Rightarrow> char" where
  "lower_chr c = (if isupper c then char_of (of_char c + (32::int)) else c)"

definition upper_chr :: "char \<Rightarrow> char" where
  "upper_chr c = (if islower c then char_of (of_char c - (32::int)) else c)"

definition lower :: "string \<Rightarrow> string" where
  "lower s = map lower_chr s"

definition any_upper :: "string \<Rightarrow> bool" where
  "any_upper s = list_ex isupper s"

definition strip :: "string \<Rightarrow> string" where
  "strip s = rev (dropWhile isspace (rev (dropWhile isspace s)))"

fun split_aux :: "string \<Rightarrow> string \<Rightarrow> string list" where
  "split_aux cur [] = (if cur = [] then [] else [cur])"
| "split_aux cur (c # s) =
     (if isspace c then (if cur = [] then split_aux [] s else cur # split_aux [] s)
      else split_aux (cur @ [c]) s)"

definition split :: "string \<Rightarrow> string list" where
  "split s = split_aux [] s"

definition str_isdigit :: "string \<Rightarrow> bool" where
  "str_isdigit s = (s \<noteq> [] \<and> list_all isdigit s)"

fun startswith :: "string \<Rightarrow> string \<Rightarrow> bool" where
  "startswith s [] = True"
| "startswith [] (p # ps) = False"
| "startswith (c # s) (p # ps) = (c = p \<and> startswith s ps)"

fun contains :: "string \<Rightarrow> string \<Rightarrow> bool" where
  "contains sub [] = (sub = [])"
| "contains sub (c # s) = (startswith (c # s) sub \<or> contains sub s)"

fun find_from :: "int \<Rightarrow> string \<Rightarrow> string \<Rightarrow> int" where
  "find_from i sub [] = (if sub = [] then i else - 1)"
| "find_from i sub (c # s) = (if startswith (c # s) sub then i else find_from (i + 1) sub s)"

definition find_str :: "string \<Rightarrow> string \<Rightarrow> int" where
  "find_str s sub = find_from 0 sub s"

fun title_aux :: "bool \<Rightarrow> string \<Rightarrow> string" where
  "title_aux prev [] = []"
| "title_aux prev (c # s) =
     (if isalpha c then (if prev then lower_chr c else upper_chr c) # title_aux True s
      else c # title_aux False s)"

definition str_title :: "string \<Rightarrow> string" where
  "str_title s = title_aux False s"

function str_nat :: "nat \<Rightarrow> string" where
  "str_nat n =
     (if n < 10 then [char_of (of_char CHR ''0'' + n)]
      else str_nat (n div 10) @ [char_of (of_char CHR ''0'' + n mod 10)])"
  by pat_completeness auto
termination
  by (relation "measure (\<lambda>n. n)") auto

definition str_int :: "int \<Rightarrow> string" where
  "str_int i = (if i < 0 then CHR ''-'' # str_nat (nat (- i)) else str_nat (nat i))"

section \<open>Regular expressions\<close>

text \<open>
  The patterns of \<open>relationship_manager.py\<close> are kept as syntax trees, and \<open>mt\<close> is a
  backtracking matcher with the priorities of Python's \<open>re\<close>: alternatives left to right,
  repetitions greedy, the first successful path wins. The continuation \<open>k\<close> receives the
  character before the position, the rest of the text and the groups captured so far. A
  counted or unbounded repetition applies to one character class or literal, which is all
  the patterns of the source use; an optional group is \<open>Opt\<close>. The flag \<open>ic\<close> is
  \<open>re.IGNORECASE\<close>.
\<close>

datatype cset = Range char char | Single char | Space | Word

datatype atom = Chr char | Set "cset list" | NSet "cset list"

datatype rx =
    One atom
  | Rep nat "nat option" atom
  | Opt rx
  | Seq rx rx
  | Alt rx rx
  | Grp rx
  | WordB
  | Bol
  | Eol
  | Eps

fun in_cset :: "cset \<Rightarrow> char \<Rightarrow> bool" where
  "in_cset (Range a b) c = in_range a b c"
| "in_cset (Single a) c = (c = a)"
| "in_cset Space c = isspace c"
| "in_cset Word c = isword c"

definition in_class :: "bool \<Rightarrow> cset list \<Rightarrow> char \<Rightarrow> bool" where
  "in_class ic cs c =
     (if ic then list_ex (\<lambda>k. in_cset k c \<or> in_cset k (lower_chr c) \<or> in_cset k (upper_chr c)) cs
      else list_ex (\<lambda>k. in_cset k c) cs)"

fun atom_ok :: "bool \<Rightarrow> atom \<Rightarrow> char \<Rightarrow> bool" where
  "atom_ok ic (Chr a) c = (if ic then lower_chr c = lower_chr a else c = a)"
| "atom_ok ic (Set cs) c = in_class ic cs c"
| "atom_ok ic (NSet cs) c = (\<not> in_class ic cs c)"

definition at_boundary :: "char option \<Rightarrow> string \<Rightarrow> bool" where
  "at_boundary p s =
     ((case p of None \<Rightarrow> False | Some c \<Rightarrow> isword c) \<noteq>
      (case s of [] \<Rightarrow> False | c # _ \<Rightarrow> isword c))"

fun backoff :: "nat \<Rightarrow> nat \<Rightarrow> (nat \<Rightarrow> 'a option) \<Rightarrow> 'a option" where
  "backoff lo 0 f = (if lo = 0 then f 0 else None)"
| "backoff lo (Suc n) f =
     (if Suc n < lo then None
      else (case f (Suc n) of Some r \<Rightarrow> Some r | None \<Rightarrow> backoff lo n f))"

definition advance :: "nat \<Rightarrow> char option \<Rightarrow> string \<Rightarrow> char option \<times> string" where
  "advance n p s = (if n = 0 then (p, s) else (Some (s ! (n - 1)), drop n s))"

fun mt :: "bool \<Rightarrow> rx \<Rightarrow> char option \<Rightarrow> string \<Rightarrow> string list
            \<Rightarrow> (char option \<Rightarrow> string \<Rightarrow> string list \<Rightarrow> 'a option) \<Rightarrow> 'a option" where
  "mt ic (One a) p s g k =
     (case s of [] \<Rightarrow> None | c # s' \<Rightarrow> if atom_ok ic a c then k (Some c) s' g else None)"
| "mt ic (Rep lo hi a) p s g k =
     (let run = length (takeWhile (atom_ok ic a) s);
          top = (case hi of None \<Rightarrow> run | Some h \<Rightarrow> min h run)
      in backoff lo top (\<lambda>n. case advance n p s of (p', s') \<Rightarrow> k p' s' g))"
| "mt ic (Opt r) p s g k =
     (case mt ic r p s g k of Some x \<Rightarrow> Some x | None \<Rightarrow> k p s g)"
| "mt ic (Seq a b) p s g k = mt ic a p s g (\<lambda>p' s' g'. mt ic b p' s' g' k)"
| "mt ic (Alt a b) p s g k =
     (case mt ic a p s g k of Some x \<Rightarrow> Some x | None \<Rightarrow> mt ic b p s g k)"
| "mt ic (Grp r) p s g k =
     mt ic r p s g (\<lambda>p' s' g'. k p' s' (g' @ [take (length s - length s') s]))"
| "mt ic WordB p s g k = (if at_boundary p s then k p s g else None)"
| "mt ic Bol p s g k = (if p = None then k p s g else None)"
| "mt ic Eol p s g k = (if s = [] \<or> s = [CHR 0x0A] then k p s g else None)"
| "mt ic Eps p s g k = k p s g"

text \<open>
  \<open>match_here\<close> is a match attempt at one position: the number of characters matched and
  the groups. \<open>re_match\<close> is \<open>re.match\<close> (an attempt at the start of the string, without
  flags) and \<open>finditer\<close> is \<open>re.finditer\<close>: the matches from left to right, each search
  starting where the previous match ended. Every pattern the source searches with
  \<open>finditer\<close> consumes at least one character, so the step past an empty match is
  never taken on them.
\<close>

definition match_here :: "bool \<Rightarrow> rx \<Rightarrow> char option \<Rightarrow> string \<Rightarrow> (nat \<times> string list) option" where
  "match_here ic r p s = mt ic r p s [] (\<lambda>p' s' g. Some (length s - length s', g))"

definition re_match :: "rx \<Rightarrow> string \<Rightarrow> bool" where
  "re_match r s = (match_here False r None s \<noteq> None)"

record rmatch =
  m_start :: nat
  m_text :: string
  m_groups :: "string list"

function finditer_from :: "bool \<Rightarrow> rx \<Rightarrow> nat \<Rightarrow> char option \<Rightarrow> string \<Rightarrow> rmatch list" where
  "finditer_from ic r i p s =
     (case match_here ic r p s of
        Some (n, g) \<Rightarrow>
          \<lparr>m_start = i, m_text = take n s, m_groups = g\<rparr> #
          (if s = [] then []
           else (let n' = max n 1
                 in finditer_from ic r (i + n') (Some (s ! (n' - 1))) (drop n' s)))
      | None \<Rightarrow>
          (case s of [] \<Rightarrow> [] | c # s' \<Rightarrow> finditer_from ic r (i + 1) (Some c) s'))"
  by pat_completeness auto
termination
  by (relation "measure (\<lambda>(ic, r, i, p, s). length s)") auto

definition finditer :: "bool \<Rightarrow> rx \<Rightarrow> string \<Rightarrow> rmatch list" where
  "finditer ic r s = finditer_from ic r 0 None s"

fun seqs :: "rx list \<Rightarrow> rx" where
  "seqs [] = Eps"
| "seqs [r] = r"
| "seqs (r # rs) = Seq r (seqs rs)"

fun alts :: "rx list \<Rightarrow> rx" where
  "alts [] = One (NSet [Range (CHR 0x00) (CHR 0xFF)])"
| "alts [r] = r"
| "alts (r # rs) = Alt r (alts rs)"

definition lit :: "string \<Rightarrow> rx" where
  "lit s = seqs (map (\<lambda>c. One (Chr c)) s)"

definition words :: "string list \<Rightarrow> rx" where
  "words ws = alts (map lit ws)"

section \<open>The pattern extractor (\<open>RelationshipManager\<close>)\<close>

text \<open>
  Each pattern is the syntax tree of the regular expression written above it. The
  dictionary \<open>entity_patterns\<close> is iterated in insertion order: PERSON, ORGANIZATION,
  LOCATION, TECHNOLOGY.
\<close>

definition AZ :: atom where
  "AZ = Set [Range CHR ''A'' CHR ''Z'']"

definition az :: atom where
  "az = Set [Range CHR ''a'' CHR ''z'']"

definition azAZ :: atom where
  "azAZ = Set [Range CHR ''a'' CHR ''z'', Range CHR ''A'' CHR ''Z'']"

definition azAZs :: atom where
  "azAZs = Set [Range CHR ''a'' CHR ''z'', Range CHR ''A'' CHR ''Z'', Space]"

definition sp :: atom where
  "sp = Set [Space]"

definition wd :: atom where
  "wd = Set [Word]"

definition person_patterns :: "rx list" where
  \<open>person_patterns =
    [ \<comment> \<open>\<open>\b[A-Z][a-z]{2,15} [A-Z][a-z]{2,15}\b\<close>\<close>
      seqs [WordB, One AZ, Rep 2 (Some 15) az, lit '' '', One AZ, Rep 2 (Some 15) az, WordB],
      \<comment> \<open>\<open>\b(?:Mr|Mrs|Ms|Dr|Prof)\.?\s+[A-Z][a-z]{2,15}(?:\s+[A-Z][a-z]{2,15})?\b\<close>\<close>
      seqs [WordB, words [''Mr'', ''Mrs'', ''Ms'', ''Dr'', ''Prof''], Rep 0 (Some 1) (Chr CHR ''.''),
            Rep 1 None sp, One AZ, Rep 2 (Some 15) az,
            Opt (seqs [Rep 1 None sp, One AZ, Rep 2 (Some 15) az]), WordB],
      \<comment> \<open>\<open>\b[A-Z][a-z]{2,15} [A-Z]\. [A-Z][a-z]{2,15}\b\<close>\<close>
      seqs [WordB, One AZ, Rep 2 (Some 15) az, lit '' '', One AZ, lit ''. '', One AZ,
            Rep 2 (Some 15) az, WordB] ]\<close>

definition organization_patterns :: "rx list" where
  \<open>organization_patterns =
    [ \<comment> \<open>\<open>\b[A-Z][a-zA-Z\s]{2,30}(?:\s+(?:Inc|Corp|LLC|Ltd|Company|Corporation))\b\<close>\<close>
      seqs [WordB, One AZ, Rep 2 (Some 30) azAZs,
            seqs [Rep 1 None sp,
                  words [''Inc'', ''Corp'', ''LLC'', ''Ltd'', ''Company'', ''Corporation'']],
            WordB],
      \<comment> \<open>\<open>\b(?:Apple Inc|Google|Microsoft|Amazon|Facebook|Meta|Tesla|SpaceX|OpenAI)\b\<close>\<close>
      seqs [WordB,
            words [''Apple Inc'', ''Google'', ''Microsoft'', ''Amazon'', ''Facebook'', ''Meta'',
                   ''Tesla'', ''SpaceX'', ''OpenAI''],
            WordB],
      \<comment> \<open>\<open>\b[A-Z][a-zA-Z\s]{2,20}\s+(?:Technologies|Systems|Solutions|Services)\b\<close>\<close>
      seqs [WordB, One AZ, Rep 2 (Some 20) azAZs, Rep 1 None sp,
            words [''Technologies'', ''Systems'', ''Solutions'', ''Services''], WordB] ]\<close>

definition location_patterns :: "rx list" where
  \<open>location_patterns =
    [ \<comment> \<open>\<open>\b[A-Z][a-z]{2,20},\s+[A-Z][a-z]{2,20}\b\<close>\<close>
      seqs [WordB, One AZ, Rep 2 (Some 20) az, lit '','', Rep 1 None sp, One AZ,
            Rep 2 (Some 20) az, WordB],
      \<comment> \<open>\<open>\b(?:California|New York|Texas|Florida|Washington|Cupertino|Seattle|Austin)\b\<close>\<close>
      seqs [WordB,
            words [''California'', ''New York'', ''Texas'', ''Florida'', ''Washington'',
                   ''Cupertino'', ''Seattle'', ''Austin''],
            WordB],
      \<comment> \<open>\<open>\b[A-Z][a-z]{2,20}\s+(?:City|County|State|Province)\b\<close>\<close>
      seqs [WordB, One AZ, Rep 2 (Some 20) az, Rep 1 None sp,
            words [''City'', ''County'', ''State'', ''Province''], WordB] ]\<close>

definition technology_patterns :: "rx list" where
  \<open>technology_patterns =
    [ \<comment> \<open>\<open>\b(?:Artificial Intelligence|Machine Learning|Deep Learning|Neural Networks?|API|Database)\b\<close>\<close>
      seqs [WordB,
            alts [lit ''Artificial Intelligence'', lit ''Machine Learning'', lit ''Deep Learning'',
                  seqs [lit ''Neural Network'', Rep 0 (Some 1) (Chr CHR ''s'')],
                  lit ''API'', lit ''Database''],
            WordB],
      \<comment> \<open>\<open>\b(?:Python|JavaScript|React|FastAPI|Docker|Kubernetes|iOS|Android|Windows|macOS)\b\<close>\<close>
      seqs [WordB,
            words [''Python'', ''JavaScript'', ''React'', ''FastAPI'', ''Docker'', ''Kubernetes'',
                   ''iOS'', ''Android'', ''Windows'', ''macOS''],
            WordB],
      \<comment> \<open>\<open>\b[A-Z][a-zA-Z]{2,15}(?:\s+[A-Z][a-zA-Z]{2,15})?\s+(?:Platform|Framework|Library|SDK)\b\<close>\<close>
      seqs [WordB, One AZ, Rep 2 (Some 15) azAZ,
            Opt (seqs [Rep 1 None sp, One AZ, Rep 2 (Some 15) azAZ]),
            Rep 1 None sp, words [''Platform'', ''Framework'', ''Library'', ''SDK''], WordB] ]\<close>

definition entity_patterns :: "(string \<times> rx list) list" where
  "entity_patterns =
    [(''PERSON'', person_patterns), (''ORGANIZATION'', organization_patterns),
     (''LOCATION'', location_patterns), (''TECHNOLOGY'', technology_patterns)]"

text \<open>The two shapes of capture group the relationship patterns use.\<close>

definition first_last :: rx where
  \<comment> \<open>\<open>([A-Z][a-z]+ [A-Z][a-z]+)\<close>\<close>
  \<open>first_last = Grp (seqs [One AZ, Rep 1 None az, lit '' '', One AZ, Rep 1 None az])\<close>

definition cap_phrase :: rx where
  \<comment> \<open>\<open>([A-Z][a-zA-Z\s]+)\<close>\<close>
  \<open>cap_phrase = Grp (seqs [One AZ, Rep 1 None azAZs])\<close>

definition relationship_patterns :: "(rx \<times> string) list" where
  \<open>relationship_patterns =
    [ \<comment> \<open>\<open>([A-Z][a-z]+ [A-Z][a-z]+) is (?:the )?CEO of ([A-Z][a-zA-Z\s]+)\<close>\<close>
      (seqs [first_last, lit '' is '', Opt (lit ''the ''), lit ''CEO of '', cap_phrase], ''CEO_OF''),
      \<comment> \<open>\<open>([A-Z][a-z]+ [A-Z][a-z]+) works at ([A-Z][a-zA-Z\s]+)\<close>\<close>
      (seqs [first_last, lit '' works at '', cap_phrase], ''WORKS_AT''),
      \<comment> \<open>\<open>([A-Z][a-zA-Z\s]+) is headquartered in ([A-Z][a-z]+)\<close>\<close>
      (seqs [cap_phrase, lit '' is headquartered in '', Grp (seqs [One AZ, Rep 1 None az])],
       ''HEADQUARTERED_IN''),
      \<comment> \<open>\<open>([A-Z][a-zA-Z\s]+) develops ([A-Z][a-zA-Z\s]+)\<close>\<close>
      (seqs [cap_phrase, lit '' develops '', cap_phrase], ''DEVELOPS''),
      \<comment> \<open>\<open>([A-Z][a-z]+ [A-Z][a-z]+) founded ([A-Z][a-zA-Z\s]+)\<close>\<close>
      (seqs [first_last, lit '' founded '', cap_phrase], ''FOUNDED''),
      \<comment> \<open>\<open>([A-Z][a-z]+ [A-Z][a-z]+) leads ([A-Z][a-zA-Z\s]+)\<close>\<close>
      (seqs [first_last, lit '' leads '', cap_phrase], ''LEADS''),
      \<comment> \<open>\<open>([A-Z][a-z]+ [A-Z][a-z]+) created ([A-Z][a-zA-Z\s]+)\<close>\<close>
      (seqs [first_last, lit '' created '', cap_phrase], ''CREATED''),
      \<comment> \<open>\<open>([A-Z][a-zA-Z\s]+) owns ([A-Z][a-zA-Z\s]+)\<close>\<close>
      (seqs [cap_phrase, lit '' owns '', cap_phrase], ''OWNS''),
      \<comment> \<open>\<open>([A-Z][a-zA-Z\s]+) uses ([A-Z][a-zA-Z\s]+)\<close>\<close>
      (seqs [cap_phrase, lit '' uses '', cap_phrase], ''USES''),
      \<comment> \<open>\<open>([A-Z][a-zA-Z\s]+) is a product of ([A-Z][a-zA-Z\s]+)\<close>\<close>
      (seqs [cap_phrase, lit '' is a product of '', cap_phrase], ''PRODUCT_OF'') ]\<close>

definition stop_words :: "string list" where
  "stop_words =
    [''the'', ''a'', ''an'', ''and'', ''or'', ''but'', ''in'', ''on'', ''at'', ''to'', ''for'', ''of'', ''with'', ''by'',
     ''from'', ''up'', ''about'', ''into'', ''through'', ''during'', ''before'', ''after'', ''above'', ''below'',
     ''between'', ''among'', ''this'', ''that'', ''these'', ''those'', ''i'', ''me'', ''my'', ''myself'', ''we'',
     ''our'', ''ours'', ''ourselves'', ''you'', ''your'', ''yours'', ''yourself'', ''yourselves'', ''he'', ''him'',
     ''his'', ''himself'', ''she'', ''her'', ''hers'', ''herself'', ''it'', ''its'', ''itself'', ''they'', ''them'',
     ''their'', ''theirs'', ''themselves'', ''what'', ''which'', ''who'', ''whom'', ''whose'', ''this'', ''that'',
     ''these'', ''those'', ''am'', ''is'', ''are'', ''was'', ''were'', ''be'', ''been'', ''being'', ''have'', ''has'',
     ''had'', ''having'', ''do'', ''does'', ''did'', ''doing'', ''will'', ''would'', ''could'', ''should'', ''may'',
     ''might'', ''must'', ''can'', ''shall'', ''stale'', ''smell'', ''old'', ''beer'', ''heat'', ''bring'', ''out'',
     ''cold'', ''takes'', ''lingers'', ''odor'', ''taste'', ''tastes'', ''with'', ''favorite'', ''pickle'', ''salt'',
     ''the stale'', ''the ceo'', ''founded spacex'', ''and tesla'', ''leads meta'', ''created amazon'',
     ''microsoft develops'', ''windows and'', ''apple inc'']"

definition invalid_patterns :: "rx list" where
  \<open>invalid_patterns =
    [ \<comment> \<open>\<open>^the\s+\w+$\<close>\<close>
      seqs [Bol, lit ''the'', Rep 1 None sp, Rep 1 None wd, Eol],
      \<comment> \<open>\<open>^\w+\s+and$\<close>\<close>
      seqs [Bol, Rep 1 None wd, Rep 1 None sp, lit ''and'', Eol],
      \<comment> \<open>\<open>^\w+\s+(develops|founded|created|leads)$\<close>\<close>
      seqs [Bol, Rep 1 None wd, Rep 1 None sp,
            Grp (words [''develops'', ''founded'', ''created'', ''leads'']), Eol],
      \<comment> \<open>\<open>^(ceo|cto|cfo)\s+of$\<close>\<close>
      seqs [Bol, Grp (words [''ceo'', ''cto'', ''cfo'']), Rep 1 None sp, lit ''of'', Eol] ]\<close>

definition no_letters :: rx where
  \<comment> \<open>\<open>^[^a-zA-Z]*$\<close>\<close>
  \<open>no_letters = seqs [Bol, Rep 0 None (NSet [Range CHR ''a'' CHR ''z'', Range CHR ''A'' CHR ''Z'']), Eol]\<close>

text \<open>
  A candidate entity is the dictionary the source builds. The confidence is a sum of
  decimal constants; it is kept as an exact rational, and the threshold test
  \<open>confidence >= 0.6\<close> is the comparison of rationals. The source adds the constants as
  doubles, which can differ from the exact sum in the last place (\<open>0.5 + 0.2 + 0.2\<close> is
  \<open>0.8999999999999999\<close>); for every combination of branches that one text can take, the
  double and the exact sum lie on the same side of \<open>0.6\<close>, in particular \<open>0.5 + 0.1\<close> and
  \<open>0.5 + 0.2 - 0.1\<close> both compare \<open>>= 0.6\<close> as doubles.
\<close>

record entity =
  ent_id :: nat
  name :: string
  etype :: string
  position :: int
  confidence :: rat

definition is_meaningful_entity :: "string \<Rightarrow> string \<Rightarrow> bool" where
  "is_meaningful_entity text entity_type =
     (if entity_type = ''PERSON'' then any_upper text \<and> length (split text) \<le> 3
      else if entity_type = ''ORGANIZATION'' then
        any_upper text \<and>
        (length (split text) \<le> 3 \<or>
         list_ex (\<lambda>word. contains word (lower text)) [''inc'', ''corp'', ''ltd'', ''llc'', ''company''])
      else if entity_type = ''LOCATION'' then any_upper text
      else if entity_type = ''TECHNOLOGY'' then
        length text \<ge> 3 \<and> \<not> List.member [''the'', ''and'', ''or'', ''but''] (lower text)
      else True)"

definition calculate_confidence :: "string \<Rightarrow> string \<Rightarrow> rat" where
  "calculate_confidence text entity_type =
     (let c0 = 0.5;
          c1 = (if any_upper text then c0 + 0.2 else c0);
          c2 = (if entity_type = ''PERSON'' \<and> length (split text) = 2 then c1 + 0.2
                else if entity_type = ''ORGANIZATION'' \<and>
                        list_ex (\<lambda>word. contains word (lower text)) [''inc'', ''corp'', ''ltd'', ''company'']
                then c1 + 0.3
                else if entity_type = ''TECHNOLOGY'' \<and> length text \<ge> 4 then c1 + 0.1
                else c1);
          c3 = (if length text < 3 then c2 - 0.2 else if length text > 30 then c2 - 0.1 else c2)
      in min 1.0 (max 0.1 c3))"

definition entity_filter :: "string \<Rightarrow> string \<Rightarrow> bool" where
  "entity_filter entity_text entity_type =
     (let entity_lower = lower entity_text
      in length entity_text > 2 \<and>
         \<not> List.member stop_words entity_lower \<and>
         \<not> str_isdigit entity_text \<and>
         length (split entity_text) \<le> 4 \<and>
         \<not> re_match no_letters entity_text \<and>
         \<not> list_ex (startswith entity_text) [''http'', ''www'', ''ftp''] \<and>
         \<not> list_ex (\<lambda>pattern. re_match pattern entity_lower) invalid_patterns \<and>
         is_meaningful_entity entity_text entity_type)"

text \<open>
  The three nested loops of \<open>extract_entities\<close>: over the types, over the patterns of a
  type, over the matches of a pattern. The accumulator is the list \<open>entities\<close>; the
  counter \<open>entity_id\<close> is its length, since it is incremented at each append.
\<close>

fun match_loop :: "string \<Rightarrow> rmatch list \<Rightarrow> entity list \<Rightarrow> entity list" where
  "match_loop entity_type [] entities = entities"
| "match_loop entity_type (m # ms) entities =
     (let entity_text = strip (m_text m)
      in if entity_filter entity_text entity_type
         then match_loop entity_type ms
                (entities @ [\<lparr>ent_id = length entities, name = entity_text, etype = entity_type,
                               position = int (m_start m),
                               confidence = calculate_confidence entity_text entity_type\<rparr>])
         else match_loop entity_type ms entities)"

fun pattern_loop :: "string \<Rightarrow> string \<Rightarrow> rx list \<Rightarrow> entity list \<Rightarrow> entity list" where
  "pattern_loop text entity_type [] entities = entities"
| "pattern_loop text entity_type (pattern # patterns) entities =
     pattern_loop text entity_type patterns
       (match_loop entity_type (finditer True pattern text) entities)"

fun type_loop :: "string \<Rightarrow> (string \<times> rx list) list \<Rightarrow> entity list \<Rightarrow> entity list" where
  "type_loop text [] entities = entities"
| "type_loop text ((entity_type, patterns) # rest) entities =
     type_loop text rest (pattern_loop text entity_type patterns entities)"

definition candidates :: "string \<Rightarrow> entity list" where
  "candidates text = type_loop text entity_patterns []"

text \<open>The last loop of \<open>extract_entities\<close>: duplicates and low confidence are removed.\<close>

fun unique_loop :: "entity list \<Rightarrow> string set \<Rightarrow> entity list \<Rightarrow> entity list" where
  "unique_loop [] seen_names unique_entities = unique_entities"
| "unique_loop (e # es) seen_names unique_entities =
     (if lower (name e) \<notin> seen_names \<and> confidence e \<ge> 0.6
      then unique_loop es (insert (lower (name e)) seen_names) (unique_entities @ [e])
      else unique_loop es seen_names unique_entities)"

definition extract_entities :: "string \<Rightarrow> entity list" where
  "extract_entities text = unique_loop (candidates text) {} []"

record relationship =
  source :: string
  target :: string
  rtype :: string
  weight :: rat
  rposition :: int
  rconfidence :: rat

text \<open>
  Every relationship pattern has two groups, so the test \<open>len(groups) >= 2\<close> holds for
  each match; it is kept as the source writes it.
\<close>

fun rel_match_loop :: "string \<Rightarrow> rmatch list \<Rightarrow> relationship list" where
  "rel_match_loop rel_type [] = []"
| "rel_match_loop rel_type (m # ms) =
     (let groups = m_groups m
      in if length groups \<ge> 2
         then \<lparr>source = strip (groups ! 0), target = strip (groups ! 1), rtype = rel_type,
               weight = 1.0, rposition = int (m_start m), rconfidence = 0.7\<rparr>
              # rel_match_loop rel_type ms
         else rel_match_loop rel_type ms)"

definition extract_relationships :: "string \<Rightarrow> relationship list" where
  "extract_relationships text =
     concat (map (\<lambda>(pattern, rel_type). rel_match_loop rel_type (finditer True pattern text))
                 relationship_patterns)"

section \<open>The extraction pipeline of the service\<close>

text \<open>
  \<open>enhance_with_nlp\<close> calls spaCy when it is installed. spaCy is an external library, so
  its pass over the text is a parameter \<open>spacy\<close>: \<open>None\<close> when the library or its model is
  missing (the source then falls back to the patterns alone), otherwise the two lists the
  source builds from the parsed document before it merges them with the pattern results.
\<close>

record nlp_result =
  nlp_entities :: "entity list"
  nlp_relationships :: "relationship list"

type_synonym spacy = "string \<Rightarrow> nlp_result option"

fun merge_entities_loop :: "bool \<Rightarrow> entity list \<Rightarrow> string set \<Rightarrow> entity list \<Rightarrow> string set \<times> entity list" where
  "merge_entities_loop reassign [] seen_names merged = (seen_names, merged)"
| "merge_entities_loop reassign (e # es) seen_names merged =
     (let name_lower = lower (name e)
      in if name_lower \<notin> seen_names \<and> confidence e \<ge> 0.6
         then merge_entities_loop reassign es (insert name_lower seen_names)
                (merged @ [if reassign then e\<lparr>ent_id := length merged\<rparr> else e])
         else merge_entities_loop reassign es seen_names merged)"

definition merge_entity_lists :: "entity list \<Rightarrow> entity list \<Rightarrow> entity list" where
  "merge_entity_lists nlp_ents pattern_ents =
     (case merge_entities_loop False nlp_ents {} [] of
        (seen_names, merged) \<Rightarrow> snd (merge_entities_loop True pattern_ents seen_names merged))"

fun merge_rels_loop :: "relationship list \<Rightarrow> (string \<times> string \<times> string) set \<Rightarrow> relationship list \<Rightarrow> relationship list" where
  "merge_rels_loop [] seen_rels merged = merged"
| "merge_rels_loop (rel # rels) seen_rels merged =
     (let rel_key = (lower (source rel), lower (target rel), rtype rel)
      in if rel_key \<notin> seen_rels \<and> rconfidence rel \<ge> 0.5 \<and> lower (source rel) \<noteq> lower (target rel)
         then merge_rels_loop rels (insert rel_key seen_rels) (merged @ [rel])
         else merge_rels_loop rels seen_rels merged)"

definition merge_relationship_lists :: "relationship list \<Rightarrow> relationship list \<Rightarrow> relationship list" where
  "merge_relationship_lists nlp_rels pattern_rels = merge_rels_loop (nlp_rels @ pattern_rels) {} []"

definition enhance_with_nlp :: "spacy \<Rightarrow> string \<Rightarrow> entity list \<times> relationship list" where
  "enhance_with_nlp spacy text =
     (case spacy text of
        None \<Rightarrow> (extract_entities text, extract_relationships text)
      | Some r \<Rightarrow>
          (merge_entity_lists (nlp_entities r) (extract_entities text),
           merge_relationship_lists (nlp_relationships r) (extract_relationships text)))"

text \<open>The dictionaries the service builds from the extractor's output.\<close>

record pentity =
  p_name :: string
  p_type :: string
  p_confidence :: rat
  p_position :: int

record prel =
  r_source :: string
  r_target :: string
  r_type :: string
  r_weight :: rat
  r_confidence :: rat

fun process_entities_loop :: "entity list \<Rightarrow> pentity list \<Rightarrow> pentity list" where
  "process_entities_loop [] processed = processed"
| "process_entities_loop (e # es) processed =
     (let entity_name = name e; nl = lower entity_name
      in if length entity_name < 2 \<or> List.member [''the'', ''a'', ''an'', ''this'', ''that''] nl
         then process_entities_loop es processed
         else
           (let entity_type =
                  (if List.member [''tacos al pastor'', ''tacos'', ''beer'', ''ham'', ''pickle'', ''salt pickle''] nl
                   then ''FOOD''
                   else if List.member [''health'', ''zest'', ''odor'', ''smell''] nl then ''CONCEPT''
                   else if List.member [''heat'', ''cold'', ''dip''] nl then ''CONDITION''
                   else etype e)
            in process_entities_loop es
                 (processed @ [\<lparr>p_name = entity_name, p_type = entity_type,
                                 p_confidence = confidence e, p_position = position e\<rparr>])))"

fun food_terms_loop :: "string \<Rightarrow> string list \<Rightarrow> pentity list \<Rightarrow> pentity list" where
  "food_terms_loop text [] processed = processed"
| "food_terms_loop text (term # terms) processed =
     (if contains term (lower text) \<and> \<not> list_ex (\<lambda>e. lower (p_name e) = term) processed
      then food_terms_loop text terms
             (processed @ [\<lparr>p_name = str_title term, p_type = ''FOOD'', p_confidence = 0.85,
                             p_position = find_str (lower text) term\<rparr>])
      else food_terms_loop text terms processed)"

definition post_process_entities :: "entity list \<Rightarrow> string \<Rightarrow> pentity list" where
  "post_process_entities entities text =
     (let processed = process_entities_loop entities [];
          processed = (if contains ''harvard'' (lower text)
                       then processed @ [\<lparr>p_name = ''Harvard University'', p_type = ''ORGANIZATION'',
                                           p_confidence = 0.9,
                                           p_position = find_str (lower text) ''harvard''\<rparr>]
                       else processed)
      in food_terms_loop text [''beer'', ''ham'', ''tacos'', ''pickle''] processed)"

fun post_process_relationships :: "relationship list \<Rightarrow> string \<Rightarrow> prel list" where
  "post_process_relationships [] text = []"
| "post_process_relationships (rel # rels) text =
     (if length (source rel) < 2 \<or> length (target rel) < 2
      then post_process_relationships rels text
      else
        (let rel_type =
               (if contains ''restore'' (lower text) \<and> contains ''health'' (lower (target rel))
                then ''RESTORES''
                else if contains ''taste'' (lower text) \<and>
                        list_ex (\<lambda>food. contains food (lower (source rel))) [''pickle'', ''ham'', ''tacos'']
                then ''TASTES_WITH''
                else rtype rel)
         in \<lparr>r_source = source rel, r_target = target rel, r_type = rel_type,
              r_weight = weight rel, r_confidence = rconfidence rel\<rparr>
            # post_process_relationships rels text))"

definition extract_entities_and_relationships :: "spacy \<Rightarrow> string \<Rightarrow> pentity list \<times> prel list" where
  "extract_entities_and_relationships spacy transcript_text =
     (case enhance_with_nlp spacy transcript_text of
        (entities, relationships) \<Rightarrow>
          (post_process_entities entities transcript_text,
           post_process_relationships relationships transcript_text))"

section \<open>The graph store (\<open>KnowledgeGraphService\<close>)\<close>

datatype pval = PStr string | PNum rat | PInt int | PBool bool

record node =
  n_id :: string
  n_label :: string
  n_type :: string
  n_props :: "(string \<times> pval) list"

record edge =
  e_id :: string
  e_source :: string
  e_target :: string
  e_type :: string
  e_weight :: rat
  e_props :: "(string \<times> pval) list"

text \<open>
  The state of the service that the graph operations read and write. Every mutating call
  saves the three fields to \<open>generated_graph_data.json\<close>, and \<open>delete_node\<close> and
  \<open>clear_all_graph_data\<close> load them back at once; with a working file system the load
  returns what was saved, so saving and loading leave the state as it is.
\<close>

record kg_state =
  generated_nodes :: "node list"
  generated_edges :: "edge list"
  deleted_sample_nodes :: "string set"

definition initial_state :: kg_state where
  "initial_state = \<lparr>generated_nodes = [], generated_edges = [], deleted_sample_nodes = {}\<rparr>"

definition sample_nodes :: "node list" where
  "sample_nodes =
    [\<lparr>n_id = ''tim_cook'', n_label = ''Tim Cook'', n_type = ''PERSON'', n_props = [(''role'', PStr ''CEO'')]\<rparr>,
     \<lparr>n_id = ''apple'', n_label = ''Apple Inc'', n_type = ''ORGANIZATION'', n_props = [(''industry'', PStr ''Technology'')]\<rparr>,
     \<lparr>n_id = ''cupertino'', n_label = ''Cupertino'', n_type = ''LOCATION'', n_props = [(''state'', PStr ''California'')]\<rparr>,
     \<lparr>n_id = ''elon_musk'', n_label = ''Elon Musk'', n_type = ''PERSON'', n_props = [(''role'', PStr ''CEO'')]\<rparr>,
     \<lparr>n_id = ''spacex'', n_label = ''SpaceX'', n_type = ''ORGANIZATION'', n_props = [(''industry'', PStr ''Aerospace'')]\<rparr>,
     \<lparr>n_id = ''tesla'', n_label = ''Tesla'', n_type = ''ORGANIZATION'', n_props = [(''industry'', PStr ''Automotive'')]\<rparr>,
     \<lparr>n_id = ''mark_zuckerberg'', n_label = ''Mark Zuckerberg'', n_type = ''PERSON'', n_props = [(''role'', PStr ''CEO'')]\<rparr>,
     \<lparr>n_id = ''meta'', n_label = ''Meta'', n_type = ''ORGANIZATION'', n_props = [(''industry'', PStr ''Social Media'')]\<rparr>,
     \<lparr>n_id = ''facebook'', n_label = ''Facebook'', n_type = ''TECHNOLOGY'', n_props = [(''type'', PStr ''Platform'')]\<rparr>,
     \<lparr>n_id = ''instagram'', n_label = ''Instagram'', n_type = ''TECHNOLOGY'', n_props = [(''type'', PStr ''Platform'')]\<rparr>,
     \<lparr>n_id = ''harvard_generated'', n_label = ''Harvard University'', n_type = ''ORGANIZATION'',
       n_props = [(''source'', PStr ''harvard.wav''), (''generated'', PBool True)]\<rparr>,
     \<lparr>n_id = ''research_generated'', n_label = ''Academic Research'', n_type = ''CONCEPT'',
       n_props = [(''source'', PStr ''harvard.wav''), (''generated'', PBool True)]\<rparr>,
     \<lparr>n_id = ''education_generated'', n_label = ''Higher Education'', n_type = ''CONCEPT'',
       n_props = [(''source'', PStr ''harvard.wav''), (''generated'', PBool True)]\<rparr>]"

definition sample_edges :: "edge list" where
  "sample_edges =
    [\<lparr>e_id = ''e1'', e_source = ''tim_cook'', e_target = ''apple'', e_type = ''CEO_OF'', e_weight = 1.0, e_props = []\<rparr>,
     \<lparr>e_id = ''e2'', e_source = ''apple'', e_target = ''cupertino'', e_type = ''HEADQUARTERED_IN'', e_weight = 1.0, e_props = []\<rparr>,
     \<lparr>e_id = ''e3'', e_source = ''elon_musk'', e_target = ''spacex'', e_type = ''FOUNDED'', e_weight = 1.0,
       e_props = [(''year'', PStr ''2002'')]\<rparr>,
     \<lparr>e_id = ''e4'', e_source = ''elon_musk'', e_target = ''tesla'', e_type = ''CEO_OF'', e_weight = 1.0, e_props = []\<rparr>,
     \<lparr>e_id = ''e5'', e_source = ''mark_zuckerberg'', e_target = ''meta'', e_type = ''CEO_OF'', e_weight = 1.0, e_props = []\<rparr>,
     \<lparr>e_id = ''e6'', e_source = ''meta'', e_target = ''facebook'', e_type = ''OWNS'', e_weight = 1.0, e_props = []\<rparr>,
     \<lparr>e_id = ''e7'', e_source = ''meta'', e_target = ''instagram'', e_type = ''OWNS'', e_weight = 1.0, e_props = []\<rparr>,
     \<lparr>e_id = ''e_harvard_1'', e_source = ''harvard_generated'', e_target = ''research_generated'',
       e_type = ''CONDUCTS'', e_weight = 1.0,
       e_props = [(''source'', PStr ''harvard.wav''), (''generated'', PBool True)]\<rparr>,
     \<lparr>e_id = ''e_harvard_2'', e_source = ''harvard_generated'', e_target = ''education_generated'',
       e_type = ''PROVIDES'', e_weight = 1.0,
       e_props = [(''source'', PStr ''harvard.wav''), (''generated'', PBool True)]\<rparr>]"

text \<open>
  \<open>_deduplicate_list_by_id\<close>, and the same loop as \<open>_deduplicate_generated_data\<close> runs it
  over the two generated lists; \<open>key\<close> reads the \<open>'id'\<close> of an item.
\<close>

fun dedup_loop :: "('a \<Rightarrow> string) \<Rightarrow> 'a list \<Rightarrow> string set \<Rightarrow> 'a list \<Rightarrow> 'a list" where
  "dedup_loop key [] seen_ids unique_items = unique_items"
| "dedup_loop key (item # items) seen_ids unique_items =
     (if key item \<notin> seen_ids
      then dedup_loop key items (insert (key item) seen_ids) (unique_items @ [item])
      else dedup_loop key items seen_ids unique_items)"

definition deduplicate_list_by_id :: "('a \<Rightarrow> string) \<Rightarrow> 'a list \<Rightarrow> 'a list" where
  "deduplicate_list_by_id key items = dedup_loop key items {} []"

definition deduplicate_generated_data :: "kg_state \<Rightarrow> kg_state" where
  "deduplicate_generated_data st =
     st\<lparr>generated_nodes := deduplicate_list_by_id n_id (generated_nodes st),
        generated_edges := deduplicate_list_by_id e_id (generated_edges st)\<rparr>"

subsection \<open>\<open>generate_graph_from_text\<close>\<close>

text \<open>
  The argument \<open>transcript_id\<close> is an optional integer and the source tests it for truth:
  \<open>None\<close> and \<open>0\<close> both take the branch without an id. \<open>user_id\<close> is an optional string,
  replaced by \<open>'local-user-1'\<close> when it is \<open>None\<close> or empty.
\<close>

definition truthy_id :: "int option \<Rightarrow> bool" where
  "truthy_id transcript_id = (case transcript_id of None \<Rightarrow> False | Some i \<Rightarrow> i \<noteq> 0)"

definition numbered :: "string \<Rightarrow> int option \<Rightarrow> nat \<Rightarrow> string" where
  \<comment> \<open>\<open>f"{pfx}_{transcript_id}_{i}" if transcript_id else f"{pfx}_{i}"\<close>, \<open>pfx\<close> being \<open>extracted\<close> or \<open>rel\<close>\<close>
  "numbered pfx transcript_id i =
     (if truthy_id transcript_id
      then pfx @ ''_'' @ str_int (the transcript_id) @ ''_'' @ str_nat i
      else pfx @ ''_'' @ str_nat i)"

definition source_tag :: "int option \<Rightarrow> string" where
  \<comment> \<open>\<open>f"transcript_{transcript_id}" if transcript_id else "text_import"\<close>\<close>
  "source_tag transcript_id =
     (if truthy_id transcript_id then ''transcript_'' @ str_int (the transcript_id) else ''text_import'')"

definition user_or_default :: "string option \<Rightarrow> string" where
  "user_or_default user_id =
     (case user_id of None \<Rightarrow> ''local-user-1'' | Some u \<Rightarrow> if u = [] then ''local-user-1'' else u)"

text \<open>The loop over \<open>enumerate(extracted_data['entities'])\<close>; \<open>i\<close> is the index.\<close>

fun new_nodes_loop :: "int option \<Rightarrow> string option \<Rightarrow> nat \<Rightarrow> pentity list \<Rightarrow> node list" where
  "new_nodes_loop transcript_id user_id i [] = []"
| "new_nodes_loop transcript_id user_id i (entity # entities) =
     (let node_id = numbered ''extracted'' transcript_id i;
          entity_name = p_name entity
      in if entity_name = [] \<or> length (strip entity_name) = 0
         then new_nodes_loop transcript_id user_id (i + 1) entities
         else \<lparr>n_id = node_id, n_label = strip entity_name, n_type = p_type entity,
               n_props = [(''confidence'', PNum (p_confidence entity)),
                          (''source'', PStr (source_tag transcript_id)),
                          (''user_id'', PStr (user_or_default user_id)),
                          (''position'', PInt (p_position entity))]\<rparr>
              # new_nodes_loop transcript_id user_id (i + 1) entities)"

text \<open>
  \<open>entity_name_to_id\<close> is a Python dictionary, iterated later in insertion order: an
  association list in which storing under an existing key replaces the value in place.
\<close>

fun dict_set :: "string \<Rightarrow> 'v \<Rightarrow> (string \<times> 'v) list \<Rightarrow> (string \<times> 'v) list" where
  "dict_set k v [] = [(k, v)]"
| "dict_set k v ((k', v') # d) = (if k' = k then (k, v) # d else (k', v') # dict_set k v d)"

fun index_words :: "string list \<Rightarrow> string \<Rightarrow> (string \<times> string) list \<Rightarrow> (string \<times> string) list" where
  "index_words [] node_id d = d"
| "index_words (word # ws) node_id d =
     (if length word > 2 \<and> map_of d word = None
      then index_words ws node_id (dict_set word node_id d)
      else index_words ws node_id d)"

fun build_index :: "node list \<Rightarrow> (string \<times> string) list \<Rightarrow> (string \<times> string) list" where
  "build_index [] d = d"
| "build_index (nd # nodes) d =
     (let entity_name = lower (n_label nd)
      in build_index nodes (index_words (split entity_name) (n_id nd) (dict_set entity_name (n_id nd) d)))"

text \<open>
  The search for the best matching node of one side of a relationship. The score is the
  length of the alias for an exact match and half of it otherwise.
\<close>

fun best_match_loop :: "(string \<times> string) list \<Rightarrow> string \<Rightarrow> string option \<Rightarrow> rat \<Rightarrow> string option" where
  "best_match_loop [] text best_match best_score = best_match"
| "best_match_loop ((entity_name, node_id) # items) text best_match best_score =
     (if contains entity_name text \<or> contains text entity_name
      then (let score = (if entity_name = text then of_nat (length entity_name)
                         else of_nat (length entity_name) / 2)
            in if score > best_score
               then best_match_loop items text (Some node_id) score
               else best_match_loop items text best_match best_score)
      else best_match_loop items text best_match best_score)"

definition best_match :: "(string \<times> string) list \<Rightarrow> string \<Rightarrow> string option" where
  "best_match entity_name_to_id text = best_match_loop entity_name_to_id text None 0"

definition falsy :: "string option \<Rightarrow> bool" where
  "falsy x = (case x of None \<Rightarrow> True | Some v \<Rightarrow> v = [])"

fun new_edges_loop :: "int option \<Rightarrow> string option \<Rightarrow> (string \<times> string) list \<Rightarrow> nat \<Rightarrow> prel list \<Rightarrow> edge list" where
  "new_edges_loop transcript_id user_id entity_name_to_id i [] = []"
| "new_edges_loop transcript_id user_id entity_name_to_id i (rel # rels) =
     (let edge_id = numbered ''rel'' transcript_id i;
          source_text = lower (r_source rel);
          target_text = lower (r_target rel);
          source_id = best_match entity_name_to_id source_text;
          target_id = best_match entity_name_to_id target_text
      in if falsy source_id \<or> falsy target_id
         then new_edges_loop transcript_id user_id entity_name_to_id (i + 1) rels
         else \<lparr>e_id = edge_id, e_source = the source_id, e_target = the target_id,
               e_type = r_type rel, e_weight = r_weight rel,
               e_props = [(''confidence'', PNum (r_confidence rel)),
                          (''source'', PStr (source_tag transcript_id)),
                          (''user_id'', PStr (user_or_default user_id))]\<rparr>
              # new_edges_loop transcript_id user_id entity_name_to_id (i + 1) rels)"

record gen_result =
  res_nodes :: "node list"
  res_edges :: "edge list"
  res_transcript_id :: "int option"
  entities_created :: nat
  relationships_created :: nat
  entities_found :: nat
  relationships_found :: nat

text \<open>
  The merge into the store and the assembly of the response, from the extracted data on.
  No step of the body raises on the dictionaries the extractor returns, so the handler
  of the enclosing \<open>try\<close> is not a branch of the model.
\<close>

definition merge_extracted :: "pentity list \<times> prel list \<Rightarrow> int option \<Rightarrow> string option \<Rightarrow> kg_state \<Rightarrow> gen_result \<times> kg_state" where
  "merge_extracted extracted_data transcript_id user_id st =
     (let entities = fst extracted_data;
          relationships = snd extracted_data;
          new_nodes = new_nodes_loop transcript_id user_id 0 entities;
          entity_name_to_id = build_index new_nodes [];
          new_edges = new_edges_loop transcript_id user_id entity_name_to_id 0 relationships;
          existing_node_ids = set (map n_id (generated_nodes st));
          existing_edge_ids = set (map e_id (generated_edges st));
          new_unique_nodes = filter (\<lambda>nd. n_id nd \<notin> existing_node_ids) new_nodes;
          new_unique_edges = filter (\<lambda>ed. e_id ed \<notin> existing_edge_ids) new_edges;
          st1 = st\<lparr>generated_nodes := generated_nodes st @ new_unique_nodes,
                   generated_edges := generated_edges st @ new_unique_edges\<rparr>;
          st2 = deduplicate_generated_data st1;
          all_nodes = deduplicate_list_by_id n_id (sample_nodes @ generated_nodes st2);
          all_edges = deduplicate_list_by_id e_id (sample_edges @ generated_edges st2)
      in (\<lparr>res_nodes = all_nodes, res_edges = all_edges, res_transcript_id = transcript_id,
            entities_created = length entities, relationships_created = length relationships,
            entities_found = length entities, relationships_found = length relationships\<rparr>,
          st2))"

definition generate_graph_from_text :: "spacy \<Rightarrow> string \<Rightarrow> int option \<Rightarrow> string option \<Rightarrow> kg_state \<Rightarrow> gen_result \<times> kg_state" where
  "generate_graph_from_text spacy transcript_text transcript_id user_id st =
     merge_extracted (extract_entities_and_relationships spacy transcript_text) transcript_id user_id st"

subsection \<open>\<open>delete_node\<close>, \<open>clear_all_graph_data\<close>, \<open>get_combined_graph_data\<close>\<close>

record del_result =
  nodes_removed :: nat
  edges_removed :: nat

definition touches :: "string \<Rightarrow> edge \<Rightarrow> bool" where
  "touches node_id ed = (e_source ed = node_id \<or> e_target ed = node_id)"

definition delete_node :: "string \<Rightarrow> kg_state \<Rightarrow> del_result \<times> kg_state" where
  "delete_node node_id st =
     (let kept_nodes = filter (\<lambda>nd. n_id nd \<noteq> node_id) (generated_nodes st);
          nodes_removed1 = length (generated_nodes st) - length kept_nodes;
          kept_edges = filter (\<lambda>ed. e_source ed \<noteq> node_id \<and> e_target ed \<noteq> node_id) (generated_edges st);
          edges_removed1 = length (generated_edges st) - length kept_edges;
          is_sample = (node_id \<in> set (map n_id sample_nodes));
          deleted = (if is_sample then insert node_id (deleted_sample_nodes st) else deleted_sample_nodes st);
          nodes_removed2 = (if is_sample then nodes_removed1 + 1 else nodes_removed1);
          edges_removed2 = (if is_sample then edges_removed1 + length (filter (touches node_id) sample_edges)
                            else edges_removed1)
      in (\<lparr>nodes_removed = nodes_removed2, edges_removed = edges_removed2\<rparr>,
          \<lparr>generated_nodes = kept_nodes, generated_edges = kept_edges, deleted_sample_nodes = deleted\<rparr>))"

record clear_result =
  c_status :: string
  c_nodes_removed :: nat
  c_edges_removed :: nat
  generated_nodes_removed :: nat
  generated_edges_removed :: nat
  sample_nodes_removed :: nat
  sample_edges_removed :: nat

definition clear_all_graph_data :: "string option \<Rightarrow> kg_state \<Rightarrow> clear_result \<times> kg_state" where
  "clear_all_graph_data user_id st =
     (let generated_nodes_count = length (generated_nodes st);
          generated_edges_count = length (generated_edges st);
          sample_nodes_count = length sample_nodes;
          sample_edges_count = length sample_edges
      in (\<lparr>c_status = ''success'',
            c_nodes_removed = generated_nodes_count + sample_nodes_count,
            c_edges_removed = generated_edges_count + sample_edges_count,
            generated_nodes_removed = generated_nodes_count,
            generated_edges_removed = generated_edges_count,
            sample_nodes_removed = sample_nodes_count,
            sample_edges_removed = sample_edges_count\<rparr>,
          \<lparr>generated_nodes = [], generated_edges = [],
            deleted_sample_nodes = fold (\<lambda>nd deleted. insert (n_id nd) deleted) sample_nodes
                                        (deleted_sample_nodes st)\<rparr>))"

record graph_data =
  g_nodes :: "node list"
  g_edges :: "edge list"

definition get_combined_graph_data :: "kg_state \<Rightarrow> graph_data" where
  "get_combined_graph_data st =
     (let filtered_sample_nodes = filter (\<lambda>nd. n_id nd \<notin> deleted_sample_nodes st) sample_nodes;
          filtered_sample_edges =
            filter (\<lambda>ed. e_source ed \<notin> deleted_sample_nodes st \<and> e_target ed \<notin> deleted_sample_nodes st)
                   sample_edges
      in \<lparr>g_nodes = filtered_sample_nodes @ generated_nodes st,
          g_edges = filtered_sample_edges @ generated_edges st\<rparr>)"

subsection \<open>\<open>import_text\<close>\<close>








subsection \<open>Sequences of calls\<close>

datatype call =
    Generate string "int option" "string option"
  | DeleteNode string
  | ClearAll "string option"

fun step :: "spacy \<Rightarrow> call \<Rightarrow> kg_state \<Rightarrow> kg_state" where
  "step spacy (Generate text transcript_id user_id) st =
     snd (generate_graph_from_text spacy text transcript_id user_id st)"
| "step spacy (DeleteNode node_id) st = snd (delete_node node_id st)"
| "step spacy (ClearAll user_id) st = snd (clear_all_graph_data user_id st)"

definition run :: "spacy \<Rightarrow> call list \<Rightarrow> kg_state \<Rightarrow> kg_state" where
  "run spacy calls st = fold (step spacy) calls st"

definition no_spacy :: spacy where
  "no_spacy = (\<lambda>text. None)"

section \<open>Predicates used in the proofs\<close>

text \<open>\<open>keeps\<close> is the test of the last loop of \<open>extract_entities\<close>, under a name.\<close>

definition keeps :: "string set \<Rightarrow> entity \<Rightarrow> bool" where
  "keeps seen e = (lower (name e) \<notin> seen \<and> confidence e \<ge> 0.6)"

text \<open>
  \<open>store_inv\<close> is the invariant of the generated lists: node ids begin with
  \<open>extracted_\<close>, edge ids begin with \<open>rel_\<close>, the endpoints of a generated edge are ids of
  generated nodes, and no id occurs twice.
\<close>

definition store_inv :: "kg_state \<Rightarrow> bool" where
  "store_inv st =
     (list_all (\<lambda>nd. startswith (n_id nd) ''extracted_'') (generated_nodes st) \<and>
      list_all (\<lambda>ed. startswith (e_id ed) ''rel_'' \<and>
                      e_source ed \<in> set (map n_id (generated_nodes st)) \<and>
                      e_target ed \<in> set (map n_id (generated_nodes st))) (generated_edges st) \<and>
      distinct (map n_id (generated_nodes st)) \<and>
      distinct (map e_id (generated_edges st)))"

text \<open>
  \<open>plausible\<close> collects what every candidate of \<open>extract_entities\<close> satisfies: it passed
  \<open>_is_meaningful_entity\<close>, its characters are characters of the text, and its type is a
  key of \<open>entity_patterns\<close>.
\<close>

definition plausible :: "string \<Rightarrow> entity \<Rightarrow> bool" where
  "plausible text e =
     (is_meaningful_entity (name e) (etype e) \<and> set (name e) \<subseteq> set text \<and>
      etype e \<in> fst ` set entity_patterns)"

text \<open>
  The seed edges \<open>e1\<close> and \<open>e2\<close> of \<open>_get_sample_graph_data\<close>, the two that touch the
  node \<open>apple\<close>, and a store whose generated list holds a node under the id of a seed
  node.
\<close>

definition tim_cook_ceo_of_apple :: edge where
  "tim_cook_ceo_of_apple =
     \<lparr>e_id = ''e1'', e_source = ''tim_cook'', e_target = ''apple'', e_type = ''CEO_OF'',
       e_weight = 1.0, e_props = []\<rparr>"

definition apple_headquartered_in_cupertino :: edge where
  "apple_headquartered_in_cupertino =
     \<lparr>e_id = ''e2'', e_source = ''apple'', e_target = ''cupertino'', e_type = ''HEADQUARTERED_IN'',
       e_weight = 1.0, e_props = []\<rparr>"

definition shadow_store :: kg_state where
  "shadow_store =
     \<lparr>generated_nodes =
        [\<lparr>n_id = ''apple'', n_label = ''Apple'', n_type = ''ORGANIZATION'', n_props = []\<rparr>],
      generated_edges = [], deleted_sample_nodes = {}\<rparr>"


section \<open>The deduplication pass of \<open>extract_entities\<close>\<close>

lemma unique_loop_step:
  "unique_loop (e # es) seen acc =
     (if keeps seen e then unique_loop es (insert (lower (name e)) seen) (acc @ [e])
      else unique_loop es seen acc)"
  by (simp add: keeps_def)

lemma unique_loop_acc:
  "unique_loop es seen acc = acc @ unique_loop es seen []"
proof (induction es arbitrary: seen acc)
  case Nil
  show ?case by simp
next
  case (Cons e es)
  show ?case
  proof (cases "keeps seen e")
    case True
    have "unique_loop (e # es) seen acc = unique_loop es (insert (lower (name e)) seen) (acc @ [e])"
      using True by (simp only: unique_loop_step if_True)
    also have "\<dots> = (acc @ [e]) @ unique_loop es (insert (lower (name e)) seen) []"
      by (rule Cons.IH)
    also have "\<dots> = acc @ unique_loop es (insert (lower (name e)) seen) ([] @ [e])"
      using Cons.IH [of "insert (lower (name e)) seen" "[e]"] by simp
    also have "\<dots> = acc @ unique_loop (e # es) seen []"
      using True by (simp only: unique_loop_step if_True)
    finally show ?thesis .
  next
    case False
    then show ?thesis using Cons.IH [of seen acc] by (simp only: unique_loop_step if_False)
  qed
qed

lemma unique_loop_Cons:
  "unique_loop (e # es) seen [] =
     (if keeps seen e then e # unique_loop es (insert (lower (name e)) seen) []
      else unique_loop es seen [])"
  using unique_loop_acc [of es "insert (lower (name e)) seen" "[e]"]
  by (simp add: unique_loop_step del: unique_loop.simps)

lemma unique_loop_fresh:
  "e \<in> set (unique_loop es seen []) \<Longrightarrow> keeps seen e \<and> e \<in> set es"
proof (induction es arbitrary: seen)
  case Nil
  then show ?case by simp
next
  case (Cons a es)
  show ?case
  proof (cases "keeps seen a")
    case True
    then have "e = a \<or> e \<in> set (unique_loop es (insert (lower (name a)) seen) [])"
      using Cons.prems by (simp add: unique_loop_Cons del: unique_loop.simps)
    then show ?thesis
    proof
      assume "e = a"
      with True show ?thesis by simp
    next
      assume "e \<in> set (unique_loop es (insert (lower (name a)) seen) [])"
      from Cons.IH [OF this] show ?thesis by (simp add: keeps_def)
    qed
  next
    case False
    then have "e \<in> set (unique_loop es seen [])"
      using Cons.prems by (simp add: unique_loop_Cons del: unique_loop.simps)
    from Cons.IH [OF this] show ?thesis by simp
  qed
qed

lemma unique_loop_distinct:
  "distinct (map (\<lambda>e. lower (name e)) (unique_loop es seen []))"
proof (induction es arbitrary: seen)
  case Nil
  show ?case by simp
next
  case (Cons a es)
  show ?case
  proof (cases "keeps seen a")
    case True
    have "lower (name a) \<notin> (\<lambda>e. lower (name e)) ` set (unique_loop es (insert (lower (name a)) seen) [])"
    proof
      assume "lower (name a) \<in> (\<lambda>e. lower (name e)) ` set (unique_loop es (insert (lower (name a)) seen) [])"
      then obtain e where e: "e \<in> set (unique_loop es (insert (lower (name a)) seen) [])"
        and eq: "lower (name a) = lower (name e)" by auto
      from unique_loop_fresh [OF e] eq show False by (simp add: keeps_def)
    qed
    with True Cons.IH show ?thesis
      by (simp add: unique_loop_Cons del: unique_loop.simps)
  next
    case False
    with Cons.IH show ?thesis
      by (simp add: unique_loop_Cons del: unique_loop.simps)
  qed
qed

lemma unique_loop_first:
  "e \<in> set (unique_loop es seen []) \<Longrightarrow>
   find (\<lambda>c. lower (name c) = lower (name e) \<and> confidence c \<ge> 0.6) es = Some e"
proof (induction es arbitrary: seen)
  case Nil
  then show ?case by simp
next
  case (Cons a es)
  show ?case
  proof (cases "keeps seen a")
    case True
    then have mem: "e = a \<or> e \<in> set (unique_loop es (insert (lower (name a)) seen) [])"
      using Cons.prems by (simp add: unique_loop_Cons del: unique_loop.simps)
    show ?thesis
    proof (cases "e = a")
      case True
      with \<open>keeps seen a\<close> show ?thesis by (simp add: keeps_def)
    next
      case False
      with mem have in_rest: "e \<in> set (unique_loop es (insert (lower (name a)) seen) [])" by simp
      then have "lower (name e) \<noteq> lower (name a)"
        using unique_loop_fresh [OF in_rest] by (auto simp: keeps_def)
      then show ?thesis using Cons.IH [OF in_rest] by simp
    qed
  next
    case False
    then have in_rest: "e \<in> set (unique_loop es seen [])"
      using Cons.prems by (simp add: unique_loop_Cons del: unique_loop.simps)
    have "lower (name e) \<notin> seen" using unique_loop_fresh [OF in_rest] by (simp add: keeps_def)
    with False have "\<not> (lower (name a) = lower (name e) \<and> confidence a \<ge> 0.6)"
      by (auto simp: keeps_def)
    then show ?thesis using Cons.IH [OF in_rest] by auto
  qed
qed

lemma unique_loop_complete:
  "c \<in> set es \<Longrightarrow> confidence c \<ge> 0.6 \<Longrightarrow>
   lower (name c) \<in> seen \<or> (\<exists>e \<in> set (unique_loop es seen []). lower (name e) = lower (name c))"
proof (induction es arbitrary: seen)
  case Nil
  then show ?case by simp
next
  case (Cons a es)
  show ?case
  proof (cases "keeps seen a")
    case True
    then have res: "unique_loop (a # es) seen [] = a # unique_loop es (insert (lower (name a)) seen) []"
      by (simp add: unique_loop_Cons del: unique_loop.simps)
    show ?thesis
    proof (cases "c = a")
      case True
      then show ?thesis unfolding res by simp
    next
      case False
      then have "c \<in> set es" using Cons.prems(1) by simp
      from Cons.IH [OF this Cons.prems(2), of "insert (lower (name a)) seen"]
      show ?thesis unfolding res by auto
    qed
  next
    case False
    then have res: "unique_loop (a # es) seen [] = unique_loop es seen []"
      by (simp add: unique_loop_Cons del: unique_loop.simps)
    show ?thesis
    proof (cases "c = a")
      case True
      with False Cons.prems(2) have "lower (name c) \<in> seen" by (simp add: keeps_def)
      then show ?thesis by simp
    next
      case False
      then have "c \<in> set es" using Cons.prems(1) by simp
      from Cons.IH [OF this Cons.prems(2), of seen] show ?thesis unfolding res .
    qed
  qed
qed

lemma unique_loop_subseq: "subseq (unique_loop es seen []) es"
proof (induction es arbitrary: seen)
  case Nil
  show ?case by simp
next
  case (Cons a es)
  show ?case
  proof (cases "keeps seen a")
    case True
    then have res: "unique_loop (a # es) seen [] = a # unique_loop es (insert (lower (name a)) seen) []"
      by (simp add: unique_loop_Cons del: unique_loop.simps)
    show ?thesis unfolding res by (rule subseq_Cons2 [OF Cons.IH])
  next
    case False
    then have res: "unique_loop (a # es) seen [] = unique_loop es seen []"
      by (simp add: unique_loop_Cons del: unique_loop.simps)
    show ?thesis unfolding res by (rule list_emb_Cons [OF Cons.IH])
  qed
qed

text \<open>
  Claim C8, as the code has it. For every text, each entity that \<open>extract_entities\<close>
  returns has a confidence of at least 0.6 and no two returned entities have names that
  are equal up to letter case. The entity kept for a name is the first candidate, in
  pattern order, that carries this name (up to case) with a confidence of at least 0.6:
  every such candidate name is represented in the result, an earlier occurrence of the
  name below 0.6 is dropped and does not stand in the way, and the result keeps the order
  of the candidates.
\<close>

theorem extract_entities_keeps_first_confident:
  "(\<forall>e \<in> set (extract_entities text). confidence e \<ge> 0.6) \<and>
   distinct (map (\<lambda>e. lower (name e)) (extract_entities text)) \<and>
   (\<forall>e \<in> set (extract_entities text).
      find (\<lambda>c. lower (name c) = lower (name e) \<and> confidence c \<ge> 0.6) (candidates text) = Some e) \<and>
   (\<forall>c \<in> set (candidates text). confidence c \<ge> 0.6 \<longrightarrow>
      (\<exists>e \<in> set (extract_entities text). lower (name e) = lower (name c))) \<and>
   subseq (extract_entities text) (candidates text)"
proof (intro conjI ballI impI)
  fix e assume "e \<in> set (extract_entities text)"
  then show "confidence e \<ge> 0.6"
    using unique_loop_fresh [of e "candidates text" "{}"]
    unfolding extract_entities_def keeps_def by blast
next
  show "distinct (map (\<lambda>e. lower (name e)) (extract_entities text))"
    unfolding extract_entities_def by (rule unique_loop_distinct)
next
  fix e assume "e \<in> set (extract_entities text)"
  then show "find (\<lambda>c. lower (name c) = lower (name e) \<and> confidence c \<ge> 0.6) (candidates text) = Some e"
    unfolding extract_entities_def by (rule unique_loop_first)
next
  fix c assume "c \<in> set (candidates text)" and "confidence c \<ge> 0.6"
  from unique_loop_complete [OF this, of "{}"]
  show "\<exists>e \<in> set (extract_entities text). lower (name e) = lower (name c)"
    unfolding extract_entities_def by simp
next
  show "subseq (extract_entities text) (candidates text)"
    unfolding extract_entities_def by (rule unique_loop_subseq)
qed

text \<open>
  The same at a text with three candidates of one name: \<open>api\<close> falls below the floor,
  \<open>API\<close> is kept and \<open>Api\<close> is dropped as a duplicate of it.
\<close>

theorem extract_entities_keeps_first_confident_witness:
  "candidates ''api. API. Api'' =
     [\<lparr>ent_id = 0, name = ''api'', etype = ''TECHNOLOGY'', position = 0, confidence = 0.5\<rparr>,
      \<lparr>ent_id = 1, name = ''API'', etype = ''TECHNOLOGY'', position = 5, confidence = 0.7\<rparr>,
      \<lparr>ent_id = 2, name = ''Api'', etype = ''TECHNOLOGY'', position = 10, confidence = 0.7\<rparr>] \<and>
   extract_entities ''api. API. Api'' =
     [\<lparr>ent_id = 1, name = ''API'', etype = ''TECHNOLOGY'', position = 5, confidence = 0.7\<rparr>] \<and>
   confidence (hd (extract_entities ''api. API. Api'')) \<ge> 0.6 \<and>
   find (\<lambda>c. lower (name c) = lower (name (hd (extract_entities ''api. API. Api''))) \<and> confidence c \<ge> 0.6)
        (candidates ''api. API. Api'') = Some (hd (extract_entities ''api. API. Api'')) \<and>
   confidence (last (candidates ''api. API. Api'')) \<ge> 0.6 \<and>
   (\<exists>e \<in> set (extract_entities ''api. API. Api'').
      lower (name e) = lower (name (last (candidates ''api. API. Api'')))) \<and>
   distinct (map (\<lambda>e. lower (name e)) (extract_entities ''api. API. Api'')) \<and>
   subseq (extract_entities ''api. API. Api'') (candidates ''api. API. Api'')"
proof -
  let ?t = "''api. API. Api''"
  have cs: "candidates ?t =
     [\<lparr>ent_id = 0, name = ''api'', etype = ''TECHNOLOGY'', position = 0, confidence = 0.5\<rparr>,
      \<lparr>ent_id = 1, name = ''API'', etype = ''TECHNOLOGY'', position = 5, confidence = 0.7\<rparr>,
      \<lparr>ent_id = 2, name = ''Api'', etype = ''TECHNOLOGY'', position = 10, confidence = 0.7\<rparr>]"
    by code_simp
  have ev: "extract_entities ?t =
     [\<lparr>ent_id = 1, name = ''API'', etype = ''TECHNOLOGY'', position = 5, confidence = 0.7\<rparr>]"
    by code_simp
  have h1: "hd (extract_entities ?t) \<in> set (extract_entities ?t)" using ev by simp
  have h2: "last (candidates ?t) \<in> set (candidates ?t)" using cs by simp
  have h3: "confidence (last (candidates ?t)) \<ge> 0.6" using cs by simp
  note T = extract_entities_keeps_first_confident [of ?t]
  from T h1 have a: "confidence (hd (extract_entities ?t)) \<ge> 0.6" by blast
  from T h1 have b: "find (\<lambda>c. lower (name c) = lower (name (hd (extract_entities ?t))) \<and> confidence c \<ge> 0.6)
        (candidates ?t) = Some (hd (extract_entities ?t))" by blast
  from T h2 h3 have c: "\<exists>e \<in> set (extract_entities ?t). lower (name e) = lower (name (last (candidates ?t)))"
    by blast
  from T have d: "distinct (map (\<lambda>e. lower (name e)) (extract_entities ?t))"
    and e: "subseq (extract_entities ?t) (candidates ?t)" by blast+
  from cs ev a b h3 c d e show ?thesis by blast
qed

text \<open>
  Claim C8 as stated fails where it says that the first occurrence of a name is kept: on
  \<open>api and API\<close> the first candidate of the name is \<open>api\<close>, with confidence 0.5; it is
  dropped, and the later \<open>API\<close> is the entity returned.
\<close>

theorem first_occurrence_below_floor_is_not_kept:
  "candidates ''api and API'' =
     [\<lparr>ent_id = 0, name = ''api'', etype = ''TECHNOLOGY'', position = 0, confidence = 0.5\<rparr>,
      \<lparr>ent_id = 1, name = ''API'', etype = ''TECHNOLOGY'', position = 8, confidence = 0.7\<rparr>] \<and>
   extract_entities ''api and API'' =
     [\<lparr>ent_id = 1, name = ''API'', etype = ''TECHNOLOGY'', position = 8, confidence = 0.7\<rparr>] \<and>
   lower (name (hd (candidates ''api and API''))) = lower (name (hd (extract_entities ''api and API''))) \<and>
   hd (candidates ''api and API'') \<notin> set (extract_entities ''api and API'')"
  by code_simp

section \<open>Scenario: the sentence about Tim Cook\<close>

text \<open>
  Claim C1. On the text \<open>Tim Cook is the CEO of Apple Inc.\<close> the relationship
  \<open>Tim Cook --CEO_OF--> Apple Inc\<close> is extracted and \<open>Tim Cook\<close> is a PERSON entity, but
  the list of entities holds nothing else: the candidate \<open>Apple Inc\<close>, matched by the
  second ORGANIZATION pattern, is dropped because \<open>'apple inc'\<close> is in \<open>stop_words\<close>.
\<close>

theorem tim_cook_scenario:
  "extract_entities ''Tim Cook is the CEO of Apple Inc.'' =
     [\<lparr>ent_id = 0, name = ''Tim Cook'', etype = ''PERSON'', position = 0, confidence = 0.9\<rparr>] \<and>
   extract_relationships ''Tim Cook is the CEO of Apple Inc.'' =
     [\<lparr>source = ''Tim Cook'', target = ''Apple Inc'', rtype = ''CEO_OF'', weight = 1.0,
       rposition = 0, rconfidence = 0.7\<rparr>]"
  by code_simp


section \<open>The store: deduplication by id\<close>

lemma dedup_loop_acc:
  "dedup_loop key xs seen acc = acc @ dedup_loop key xs seen []"
proof (induction xs arbitrary: seen acc)
  case Nil
  show ?case by simp
next
  case (Cons x xs)
  show ?case
    using Cons.IH [of "insert (key x) seen" "acc @ [x]"] Cons.IH [of "insert (key x) seen" "[x]"]
      Cons.IH [of seen acc]
    by simp
qed

lemma dedup_loop_Cons:
  "dedup_loop key (x # xs) seen [] =
     (if key x \<notin> seen then x # dedup_loop key xs (insert (key x) seen) []
      else dedup_loop key xs seen [])"
  using dedup_loop_acc [of key xs "insert (key x) seen" "[x]"] by simp

lemma dedup_loop_keys:
  "key ` set (dedup_loop key xs seen []) = key ` set xs - seen"
  by (induction xs arbitrary: seen) (auto simp: dedup_loop_Cons simp del: dedup_loop.simps(2))

lemma dedup_loop_subset:
  "set (dedup_loop key xs seen []) \<subseteq> set xs"
  by (induction xs arbitrary: seen) (auto simp: dedup_loop_Cons simp del: dedup_loop.simps(2))

lemma dedup_loop_distinct:
  "distinct (map key (dedup_loop key xs seen []))"
proof (induction xs arbitrary: seen)
  case Nil
  show ?case by simp
next
  case (Cons x xs)
  have "key x \<notin> key ` set (dedup_loop key xs (insert (key x) seen) [])"
    by (simp add: dedup_loop_keys)
  with Cons.IH show ?case
    by (simp add: dedup_loop_Cons del: dedup_loop.simps(2))
qed

lemma dedup_loop_append:
  "distinct (map key xs) \<Longrightarrow> key ` set xs \<inter> seen = {} \<Longrightarrow>
   dedup_loop key (xs @ ys) seen [] = xs @ dedup_loop key ys (seen \<union> key ` set xs) []"
proof (induction xs arbitrary: seen)
  case Nil
  show ?case by simp
next
  case (Cons x xs)
  have a: "key x \<notin> seen" using Cons.prems by auto
  have b: "distinct (map key xs)" using Cons.prems by simp
  have c: "key ` set xs \<inter> insert (key x) seen = {}" using Cons.prems by auto
  have d: "insert (key x) seen \<union> key ` set xs = seen \<union> key ` set (x # xs)" by auto
  show ?case
    using Cons.IH [OF b c] a d
    by (simp add: dedup_loop_Cons del: dedup_loop.simps(2))
qed

lemma dedup_loop_id:
  "distinct (map key xs) \<Longrightarrow> key ` set xs \<inter> seen = {} \<Longrightarrow> dedup_loop key xs seen [] = xs"
  using dedup_loop_append [of key xs seen "[]"] by simp

lemma dedup_distinct: "distinct (map key (deduplicate_list_by_id key xs))"
  unfolding deduplicate_list_by_id_def by (rule dedup_loop_distinct)

lemma dedup_keys: "key ` set (deduplicate_list_by_id key xs) = key ` set xs"
  unfolding deduplicate_list_by_id_def by (simp add: dedup_loop_keys)

lemma dedup_subset: "set (deduplicate_list_by_id key xs) \<subseteq> set xs"
  unfolding deduplicate_list_by_id_def by (rule dedup_loop_subset)

lemma dedup_id: "distinct (map key xs) \<Longrightarrow> deduplicate_list_by_id key xs = xs"
  unfolding deduplicate_list_by_id_def by (rule dedup_loop_id) auto

lemma dedup_prefix:
  "distinct (map key xs) \<Longrightarrow> set xs \<subseteq> set (deduplicate_list_by_id key (xs @ ys))"
  unfolding deduplicate_list_by_id_def using dedup_loop_append [of key xs "{}" ys] by simp

section \<open>The store: identifiers of generated nodes and edges\<close>

lemma startswith_append: "startswith (p @ s) p"
  by (induction p) auto

lemma numbered_prefix: "startswith (numbered p tid i) (p @ ''_'')"
  unfolding numbered_def using startswith_append [of "p @ ''_''"] by simp

lemma new_nodes_prefix:
  "list_all (\<lambda>nd. startswith (n_id nd) ''extracted_'') (new_nodes_loop tid uid i es)"
proof (induction es arbitrary: i)
  case Nil
  show ?case by simp
next
  case (Cons e es)
  have "startswith (numbered ''extracted'' tid i) ''extracted_''"
    using numbered_prefix [of "''extracted''" tid i] by simp
  with Cons.IH show ?case by (simp add: Let_def)
qed

lemma dict_set_values: "x \<in> snd ` set (dict_set k v d) \<Longrightarrow> x = v \<or> x \<in> snd ` set d"
  by (induction d) (fastforce split: if_splits)+

lemma index_words_values: "x \<in> snd ` set (index_words ws v d) \<Longrightarrow> x = v \<or> x \<in> snd ` set d"
proof (induction ws arbitrary: d)
  case Nil
  then show ?case by simp
next
  case (Cons w ws)
  show ?case
  proof (cases "length w > 2 \<and> map_of d w = None")
    case True
    then have "x \<in> snd ` set (index_words ws v (dict_set w v d))" using Cons.prems by simp
    from Cons.IH [OF this] show ?thesis using dict_set_values [of x w v d] by blast
  next
    case False
    then have "x \<in> snd ` set (index_words ws v d)" using Cons.prems by auto
    from Cons.IH [OF this] show ?thesis .
  qed
qed

lemma build_index_values:
  "x \<in> snd ` set (build_index nodes d) \<Longrightarrow> x \<in> snd ` set d \<or> x \<in> n_id ` set nodes"
proof (induction nodes arbitrary: d)
  case Nil
  then show ?case by simp
next
  case (Cons nd nodes)
  let ?d1 = "dict_set (lower (n_label nd)) (n_id nd) d"
  let ?d2 = "index_words (split (lower (n_label nd))) (n_id nd) ?d1"
  have "x \<in> snd ` set (build_index nodes ?d2)" using Cons.prems by (simp add: Let_def)
  from Cons.IH [OF this] have "x \<in> snd ` set ?d2 \<or> x \<in> n_id ` set nodes" .
  then show ?case
  proof
    assume "x \<in> snd ` set ?d2"
    then have "x = n_id nd \<or> x \<in> snd ` set ?d1" by (rule index_words_values)
    then have "x = n_id nd \<or> x \<in> snd ` set d" using dict_set_values [of x _ "n_id nd" d] by blast
    then show ?thesis by auto
  next
    assume "x \<in> n_id ` set nodes"
    then show ?thesis by auto
  qed
qed

lemma best_match_loop_value:
  "best_match_loop items text best score = Some x \<Longrightarrow> x \<in> snd ` set items \<or> best = Some x"
proof (induction items arbitrary: best score)
  case Nil
  then show ?case by simp
next
  case (Cons it items)
  obtain k v where it: "it = (k, v)" by (cases it)
  show ?case
    using Cons.prems Cons.IH [of "Some v"] Cons.IH [of best]
    unfolding it
    by (fastforce simp: Let_def split: if_splits)
qed

lemma best_match_value:
  "best_match idx text = Some x \<Longrightarrow> x \<in> snd ` set idx"
  unfolding best_match_def using best_match_loop_value [of idx "text" None 0 x] by simp

lemma falsy_the: "\<not> falsy x \<Longrightarrow> x = Some (the x)"
  by (cases x) (auto simp: falsy_def)

lemma new_edges_props:
  "list_all (\<lambda>ed. startswith (e_id ed) ''rel_'' \<and> e_source ed \<in> snd ` set idx \<and> e_target ed \<in> snd ` set idx)
            (new_edges_loop tid uid idx i rels)"
proof (induction rels arbitrary: i)
  case Nil
  show ?case by simp
next
  case (Cons r rels)
  have p: "startswith (numbered ''rel'' tid i) ''rel_''"
    using numbered_prefix [of "''rel''" tid i] by simp
  show ?case
  proof (cases "falsy (best_match idx (lower (r_source r))) \<or> falsy (best_match idx (lower (r_target r)))")
    case True
    then show ?thesis using Cons.IH [of "i + 1"] by (simp add: Let_def)
  next
    case False
    then have s: "the (best_match idx (lower (r_source r))) \<in> snd ` set idx"
      and t: "the (best_match idx (lower (r_target r))) \<in> snd ` set idx"
      using best_match_value falsy_the by (metis)+
    from False p s t Cons.IH [of "i + 1"] show ?thesis by (simp add: Let_def)
  qed
qed


section \<open>The store: what a merge leaves behind\<close>

lemma merge_nodes:
  "generated_nodes (snd (merge_extracted ext tid uid st)) =
     deduplicate_list_by_id n_id
       (generated_nodes st @
        filter (\<lambda>nd. n_id nd \<notin> set (map n_id (generated_nodes st))) (new_nodes_loop tid uid 0 (fst ext)))"
  by (simp add: merge_extracted_def Let_def deduplicate_generated_data_def)

lemma merge_edges:
  "generated_edges (snd (merge_extracted ext tid uid st)) =
     deduplicate_list_by_id e_id
       (generated_edges st @
        filter (\<lambda>ed. e_id ed \<notin> set (map e_id (generated_edges st)))
          (new_edges_loop tid uid (build_index (new_nodes_loop tid uid 0 (fst ext)) []) 0 (snd ext)))"
  by (simp add: merge_extracted_def Let_def deduplicate_generated_data_def)

lemma merge_deleted:
  "deleted_sample_nodes (snd (merge_extracted ext tid uid st)) = deleted_sample_nodes st"
  by (simp add: merge_extracted_def Let_def deduplicate_generated_data_def)

lemma merge_res_nodes:
  "res_nodes (fst (merge_extracted ext tid uid st)) =
     deduplicate_list_by_id n_id (sample_nodes @ generated_nodes (snd (merge_extracted ext tid uid st)))"
  by (simp add: merge_extracted_def Let_def)

lemma merge_node_ids:
  "n_id ` set (generated_nodes (snd (merge_extracted ext tid uid st))) =
     n_id ` set (generated_nodes st) \<union> n_id ` set (new_nodes_loop tid uid 0 (fst ext))"
  unfolding merge_nodes dedup_keys by auto

lemma merge_edge_ids:
  "e_id ` set (generated_edges (snd (merge_extracted ext tid uid st))) =
     e_id ` set (generated_edges st) \<union>
     e_id ` set (new_edges_loop tid uid (build_index (new_nodes_loop tid uid 0 (fst ext)) []) 0 (snd ext))"
  unfolding merge_edges dedup_keys by auto

lemma merge_nodes_subset:
  "set (generated_nodes (snd (merge_extracted ext tid uid st))) \<subseteq>
     set (generated_nodes st) \<union> set (new_nodes_loop tid uid 0 (fst ext))"
  unfolding merge_nodes using dedup_subset [of n_id] by fastforce

lemma merge_edges_subset:
  "set (generated_edges (snd (merge_extracted ext tid uid st))) \<subseteq>
     set (generated_edges st) \<union>
     set (new_edges_loop tid uid (build_index (new_nodes_loop tid uid 0 (fst ext)) []) 0 (snd ext))"
  unfolding merge_edges using dedup_subset [of e_id] by fastforce

lemma store_inv_merge:
  assumes "store_inv st"
  shows "store_inv (snd (merge_extracted ext tid uid st))"
proof -
  let ?st = "snd (merge_extracted ext tid uid st)"
  let ?NN = "new_nodes_loop tid uid 0 (fst ext)"
  let ?IDX = "build_index ?NN []"
  let ?NE = "new_edges_loop tid uid ?IDX 0 (snd ext)"
  have old_n: "\<forall>nd \<in> set (generated_nodes st). startswith (n_id nd) ''extracted_''"
    and old_e: "\<forall>ed \<in> set (generated_edges st). startswith (e_id ed) ''rel_'' \<and>
                  e_source ed \<in> n_id ` set (generated_nodes st) \<and>
                  e_target ed \<in> n_id ` set (generated_nodes st)"
    using assms by (simp_all add: store_inv_def list_all_iff)
  have new_n: "\<forall>nd \<in> set ?NN. startswith (n_id nd) ''extracted_''"
    using new_nodes_prefix [of tid uid 0 "fst ext"] by (simp add: list_all_iff)
  have new_e: "\<forall>ed \<in> set ?NE. startswith (e_id ed) ''rel_'' \<and>
                 e_source ed \<in> snd ` set ?IDX \<and> e_target ed \<in> snd ` set ?IDX"
    using new_edges_props [of ?IDX tid uid 0 "snd ext"] by (simp add: list_all_iff)
  have idx: "snd ` set ?IDX \<subseteq> n_id ` set ?NN"
    using build_index_values [of _ ?NN "[]"] by auto
  have n1: "\<forall>nd \<in> set (generated_nodes ?st). startswith (n_id nd) ''extracted_''"
    using merge_nodes_subset [of ext tid uid st] old_n new_n by blast
  have e1: "\<forall>ed \<in> set (generated_edges ?st). startswith (e_id ed) ''rel_'' \<and>
              e_source ed \<in> n_id ` set (generated_nodes ?st) \<and>
              e_target ed \<in> n_id ` set (generated_nodes ?st)"
  proof
    fix ed assume "ed \<in> set (generated_edges ?st)"
    then have "ed \<in> set (generated_edges st) \<or> ed \<in> set ?NE"
      using merge_edges_subset [of ext tid uid st] by blast
    then show "startswith (e_id ed) ''rel_'' \<and>
              e_source ed \<in> n_id ` set (generated_nodes ?st) \<and>
              e_target ed \<in> n_id ` set (generated_nodes ?st)"
      unfolding merge_node_ids using old_e new_e idx by blast
  qed
  have d1: "distinct (map n_id (generated_nodes ?st))"
    unfolding merge_nodes by (rule dedup_distinct)
  have d2: "distinct (map e_id (generated_edges ?st))"
    unfolding merge_edges by (rule dedup_distinct)
  show ?thesis
    using n1 e1 d1 d2 by (simp add: store_inv_def list_all_iff)
qed

lemma store_inv_delete:
  assumes "store_inv st"
  shows "store_inv (snd (delete_node x st))"
  using assms
  by (auto simp: store_inv_def delete_node_def Let_def list_all_iff distinct_map_filter)

lemma store_inv_clear: "store_inv (snd (clear_all_graph_data uid st))"
  by (simp add: store_inv_def clear_all_graph_data_def Let_def)

lemma store_inv_step: "store_inv st \<Longrightarrow> store_inv (step spacy c st)"
  by (cases c) (simp_all add: generate_graph_from_text_def store_inv_merge store_inv_delete store_inv_clear)

lemma store_inv_fold: "store_inv st \<Longrightarrow> store_inv (fold (step spacy) calls st)"
  by (induction calls arbitrary: st) (simp_all add: store_inv_step)

lemma store_inv_initial: "store_inv initial_state"
  by (simp add: store_inv_def initial_state_def)

lemma store_inv_run: "store_inv (run spacy calls initial_state)"
  unfolding run_def by (rule store_inv_fold [OF store_inv_initial])

section \<open>The seed graph and the combined view\<close>

lemma sample_edges_closed:
  "\<forall>ed \<in> set sample_edges. e_source ed \<in> n_id ` set sample_nodes \<and> e_target ed \<in> n_id ` set sample_nodes"
  by (simp add: sample_edges_def sample_nodes_def)

lemma sample_nodes_distinct: "distinct (map n_id sample_nodes)"
  by (simp add: sample_nodes_def)

lemma sample_edges_distinct: "distinct (map e_id sample_edges)"
  by (simp add: sample_edges_def)

lemma sample_nodes_not_extracted: "\<forall>nd \<in> set sample_nodes. \<not> startswith (n_id nd) ''extracted_''"
  by (simp add: sample_nodes_def)

lemma sample_edges_not_rel: "\<forall>ed \<in> set sample_edges. \<not> startswith (e_id ed) ''rel_''"
  by (simp add: sample_edges_def)

lemma combined_no_dangling:
  assumes "store_inv st"
  shows "\<forall>ed \<in> set (g_edges (get_combined_graph_data st)).
           e_source ed \<in> n_id ` set (g_nodes (get_combined_graph_data st)) \<and>
           e_target ed \<in> n_id ` set (g_nodes (get_combined_graph_data st))"
proof
  fix ed assume ed: "ed \<in> set (g_edges (get_combined_graph_data st))"
  let ?D = "deleted_sample_nodes st"
  have nodes: "n_id ` set (g_nodes (get_combined_graph_data st)) =
      (n_id ` set sample_nodes - ?D) \<union> n_id ` set (generated_nodes st)"
    by (auto simp: get_combined_graph_data_def Let_def)
  from ed consider
    (seed) "ed \<in> set sample_edges" "e_source ed \<notin> ?D" "e_target ed \<notin> ?D"
    | (gen) "ed \<in> set (generated_edges st)"
    by (auto simp: get_combined_graph_data_def Let_def)
  then show "e_source ed \<in> n_id ` set (g_nodes (get_combined_graph_data st)) \<and>
           e_target ed \<in> n_id ` set (g_nodes (get_combined_graph_data st))"
  proof cases
    case seed
    then show ?thesis unfolding nodes using sample_edges_closed by blast
  next
    case gen
    then show ?thesis unfolding nodes using assms by (auto simp: store_inv_def list_all_iff)
  qed
qed

text \<open>
  Claim C2. In every state reached from the initial empty store by any sequence of
  \<open>generate_graph_from_text\<close>, \<open>delete_node\<close> and \<open>clear_all_graph_data\<close> calls, each edge
  of \<open>get_combined_graph_data\<close> has a source and a target that are ids of nodes of the same
  result.
\<close>

theorem combined_view_has_no_dangling_edge:
  "\<forall>ed \<in> set (g_edges (get_combined_graph_data (run spacy calls initial_state))).
     e_source ed \<in> n_id ` set (g_nodes (get_combined_graph_data (run spacy calls initial_state))) \<and>
     e_target ed \<in> n_id ` set (g_nodes (get_combined_graph_data (run spacy calls initial_state)))"
  by (rule combined_no_dangling [OF store_inv_run])

section \<open>Importing the same text twice\<close>

lemma new_nodes_ids_user:
  "map n_id (new_nodes_loop tid uid i es) = map n_id (new_nodes_loop tid uid' i es)"
  by (induction es arbitrary: i) (simp_all add: Let_def)

lemma build_index_user:
  "build_index (new_nodes_loop tid uid i es) d = build_index (new_nodes_loop tid uid' i es) d"
  by (induction es arbitrary: i d) (simp_all add: Let_def)

lemma new_edges_ids_user:
  "map e_id (new_edges_loop tid uid idx i rels) = map e_id (new_edges_loop tid uid' idx i rels)"
  by (induction rels arbitrary: i) (simp_all add: Let_def)

lemma filter_known_ids:
  "key ` set xs \<subseteq> key ` set ys \<Longrightarrow> filter (\<lambda>x. key x \<notin> set (map key ys)) xs = []"
  by (induction xs) auto

lemma merge_twice_nodes:
  "generated_nodes (snd (merge_extracted ext tid uid' (snd (merge_extracted ext tid uid st)))) =
   generated_nodes (snd (merge_extracted ext tid uid st))"
proof -
  let ?s1 = "snd (merge_extracted ext tid uid st)"
  have "n_id ` set (new_nodes_loop tid uid' 0 (fst ext)) = n_id ` set (new_nodes_loop tid uid 0 (fst ext))"
    using new_nodes_ids_user [of tid uid' 0 "fst ext" uid] by (metis set_map)
  then have "n_id ` set (new_nodes_loop tid uid' 0 (fst ext)) \<subseteq> n_id ` set (generated_nodes ?s1)"
    unfolding merge_node_ids by blast
  then have empty: "filter (\<lambda>nd. n_id nd \<notin> set (map n_id (generated_nodes ?s1)))
                      (new_nodes_loop tid uid' 0 (fst ext)) = []"
    by (rule filter_known_ids)
  have "distinct (map n_id (generated_nodes ?s1))"
    unfolding merge_nodes by (rule dedup_distinct)
  then show ?thesis
    unfolding merge_nodes [of ext tid uid' ?s1] empty by (simp add: dedup_id)
qed

lemma merge_twice_edges:
  "generated_edges (snd (merge_extracted ext tid uid' (snd (merge_extracted ext tid uid st)))) =
   generated_edges (snd (merge_extracted ext tid uid st))"
proof -
  let ?s1 = "snd (merge_extracted ext tid uid st)"
  let ?NE = "\<lambda>u. new_edges_loop tid u (build_index (new_nodes_loop tid u 0 (fst ext)) []) 0 (snd ext)"
  have "map e_id (?NE uid') = map e_id (?NE uid)"
    using build_index_user [of tid uid' 0 "fst ext" "[]" uid] new_edges_ids_user by metis
  then have "e_id ` set (?NE uid') = e_id ` set (?NE uid)" by (metis set_map)
  then have "e_id ` set (?NE uid') \<subseteq> e_id ` set (generated_edges ?s1)"
    unfolding merge_edge_ids by blast
  then have empty: "filter (\<lambda>ed. e_id ed \<notin> set (map e_id (generated_edges ?s1))) (?NE uid') = []"
    by (rule filter_known_ids)
  have "distinct (map e_id (generated_edges ?s1))"
    unfolding merge_edges by (rule dedup_distinct)
  then show ?thesis
    unfolding merge_edges [of ext tid uid' ?s1] empty by (simp add: dedup_id)
qed

text \<open>
  Claim C3. A second \<open>generate_graph_from_text\<close> call with the same text and the same
  \<open>transcript_id\<close> leaves \<open>generated_nodes\<close> and \<open>generated_edges\<close> as the first call left
  them, whatever the state before the first call and whatever the two user ids; so their
  lengths do not change.
\<close>

theorem same_import_twice_adds_nothing:
  "length (generated_nodes (run spacy [Generate t tid uid, Generate t tid uid'] st)) =
     length (generated_nodes (run spacy [Generate t tid uid] st)) \<and>
   length (generated_edges (run spacy [Generate t tid uid, Generate t tid uid'] st)) =
     length (generated_edges (run spacy [Generate t tid uid] st)) \<and>
   generated_nodes (run spacy [Generate t tid uid, Generate t tid uid'] st) =
     generated_nodes (run spacy [Generate t tid uid] st) \<and>
   generated_edges (run spacy [Generate t tid uid, Generate t tid uid'] st) =
     generated_edges (run spacy [Generate t tid uid] st)"
  by (simp add: run_def generate_graph_from_text_def merge_twice_nodes merge_twice_edges)

text \<open>The same on one sentence, imported twice into the empty store.\<close>

theorem same_import_twice_adds_nothing_witness:
  "length (generated_nodes (run no_spacy [Generate ''Elon Musk founded Tesla'' None None] initial_state)) = 3 \<and>
   length (generated_nodes (run no_spacy [Generate ''Elon Musk founded Tesla'' None None,
                                          Generate ''Elon Musk founded Tesla'' None None] initial_state)) = 3"
proof -
  have "length (generated_nodes (run no_spacy [Generate ''Elon Musk founded Tesla'' None None] initial_state)) = 3"
    by code_simp
  then show ?thesis
    using same_import_twice_adds_nothing
      [of no_spacy "''Elon Musk founded Tesla''" None None None initial_state]
    by simp
qed

section \<open>No dangling edge: an example\<close>

text \<open>
  One import that creates an edge, followed by the deletion of a seed node: the edges that
  remain visible are computed, and the theorem of claim C2 applies to them.
\<close>

theorem combined_view_has_no_dangling_edge_witness:
  "map e_id (g_edges (get_combined_graph_data
      (run no_spacy [Generate ''Elon Musk founded Tesla'' None None, DeleteNode ''apple''] initial_state))) =
     [''e3'', ''e4'', ''e5'', ''e6'', ''e7'', ''e_harvard_1'', ''e_harvard_2'', ''rel_0''] \<and>
   e_source (last (g_edges (get_combined_graph_data
      (run no_spacy [Generate ''Elon Musk founded Tesla'' None None, DeleteNode ''apple''] initial_state))))
     \<in> n_id ` set (g_nodes (get_combined_graph_data
      (run no_spacy [Generate ''Elon Musk founded Tesla'' None None, DeleteNode ''apple''] initial_state))) \<and>
   e_target (last (g_edges (get_combined_graph_data
      (run no_spacy [Generate ''Elon Musk founded Tesla'' None None, DeleteNode ''apple''] initial_state))))
     \<in> n_id ` set (g_nodes (get_combined_graph_data
      (run no_spacy [Generate ''Elon Musk founded Tesla'' None None, DeleteNode ''apple''] initial_state)))"
proof -
  let ?st = "run no_spacy [Generate ''Elon Musk founded Tesla'' None None, DeleteNode ''apple''] initial_state"
  have ev: "map e_id (g_edges (get_combined_graph_data ?st)) =
     [''e3'', ''e4'', ''e5'', ''e6'', ''e7'', ''e_harvard_1'', ''e_harvard_2'', ''rel_0'']"
    by code_simp
  then have "g_edges (get_combined_graph_data ?st) \<noteq> []" by auto
  then have "last (g_edges (get_combined_graph_data ?st)) \<in> set (g_edges (get_combined_graph_data ?st))"
    by (rule last_in_set)
  with ev combined_view_has_no_dangling_edge
      [of no_spacy "[Generate ''Elon Musk founded Tesla'' None None, DeleteNode ''apple'']"]
  show ?thesis by blast
qed

section \<open>Two imports without a transcript id\<close>

text \<open>
  Claim C4. Two unrelated texts are imported one after the other without a
  \<open>transcript_id\<close>, as the route \<open>/graph/add\<close> does. Both imports number their nodes
  \<open>extracted_0\<close>, \<open>extracted_1\<close>, ..., so the entity of the second text meets an id that is
  already stored and is not inserted, although the call reports one entity created.
\<close>

theorem second_import_without_id_is_dropped:
  "map n_label (generated_nodes (run no_spacy [Generate ''Tim Cook'' None (Some ''u1'')] initial_state)) =
     [''Tim Cook''] \<and>
   entities_created (fst (generate_graph_from_text no_spacy ''Elon Musk'' None (Some ''u1'')
      (run no_spacy [Generate ''Tim Cook'' None (Some ''u1'')] initial_state))) = 1 \<and>
   map n_label (generated_nodes (run no_spacy [Generate ''Tim Cook'' None (Some ''u1''),
                                               Generate ''Elon Musk'' None (Some ''u1'')] initial_state)) =
     [''Tim Cook'']"
  by code_simp

section \<open>Deleting the seed node \<open>apple\<close>\<close>

lemma removed_count:
  "length xs - length (filter (\<lambda>x. \<not> P x) xs) = length (filter P xs)"
  using sum_length_filter_compl [of P xs] by simp

lemma delete_node_apple_counts:
  "fst (delete_node ''apple'' st) =
     \<lparr>nodes_removed = length (filter (\<lambda>nd. n_id nd = ''apple'') (generated_nodes st)) + 1,
      edges_removed = length (filter (touches ''apple'') (generated_edges st)) + 2\<rparr>"
proof -
  have n: "length (generated_nodes st) - length (filter (\<lambda>nd. n_id nd \<noteq> ''apple'') (generated_nodes st)) =
           length (filter (\<lambda>nd. n_id nd = ''apple'') (generated_nodes st))"
    by (rule removed_count)
  have e: "length (generated_edges st) -
             length (filter (\<lambda>ed. e_source ed \<noteq> ''apple'' \<and> e_target ed \<noteq> ''apple'') (generated_edges st)) =
           length (filter (touches ''apple'') (generated_edges st))"
    using removed_count [where P = "touches ''apple''" and xs = "generated_edges st"] by (simp add: touches_def)
  have s: "''apple'' \<in> set (map n_id sample_nodes)" by (simp add: sample_nodes_def)
  have c: "length (filter (touches ''apple'') sample_edges) = 2"
    by (simp add: sample_edges_def touches_def)
  show ?thesis
    unfolding delete_node_def Let_def using n e s c by simp
qed

lemma store_inv_no_apple:
  assumes "store_inv st"
  shows "filter (\<lambda>nd. n_id nd = ''apple'') (generated_nodes st) = []"
    and "filter (touches ''apple'') (generated_edges st) = []"
proof -
  have a: "\<not> startswith ''apple'' ''extracted_''" by simp
  have n: "\<forall>nd \<in> set (generated_nodes st). startswith (n_id nd) ''extracted_''"
    using assms by (simp add: store_inv_def list_all_iff)
  have ids: "''apple'' \<notin> n_id ` set (generated_nodes st)"
  proof
    assume "''apple'' \<in> n_id ` set (generated_nodes st)"
    then obtain nd where "nd \<in> set (generated_nodes st)" and "n_id nd = ''apple''" by auto
    with n have "startswith ''apple'' ''extracted_''" by metis
    with a show False by simp
  qed
  show "filter (\<lambda>nd. n_id nd = ''apple'') (generated_nodes st) = []"
    unfolding filter_empty_conv
  proof (intro ballI notI)
    fix nd assume "nd \<in> set (generated_nodes st)" and "n_id nd = ''apple''"
    then have "''apple'' \<in> n_id ` set (generated_nodes st)" by (metis imageI)
    with ids show False by (rule notE)
  qed
  have "\<forall>ed \<in> set (generated_edges st). e_source ed \<in> n_id ` set (generated_nodes st) \<and>
          e_target ed \<in> n_id ` set (generated_nodes st)"
    using assms by (simp add: store_inv_def list_all_iff)
  then show "filter (touches ''apple'') (generated_edges st) = []"
    unfolding filter_empty_conv touches_def using ids by metis
qed

lemma delete_node_hides:
  "''apple'' \<notin> n_id ` set (g_nodes (get_combined_graph_data (snd (delete_node ''apple'' st)))) \<and>
   list_all (\<lambda>ed. \<not> touches ''apple'' ed) (g_edges (get_combined_graph_data (snd (delete_node ''apple'' st))))"
proof -
  have s: "''apple'' \<in> set (map n_id sample_nodes)" by (simp add: sample_nodes_def)
  show ?thesis
    unfolding delete_node_def get_combined_graph_data_def Let_def using s
    by (auto simp: list_all_iff touches_def)
qed

lemma filter_split_length:
  "length (filter P xs) =
     length (filter (\<lambda>x. P x \<and> \<not> Q x) xs) + length (filter (\<lambda>x. P x \<and> Q x) xs)"
  by (induction xs) auto

lemma filter_none_keeps_all: "filter P xs = [] \<Longrightarrow> filter (\<lambda>x. \<not> P x) xs = xs"
  by (induction xs) (auto split: if_splits)

lemma seed_edge_visible:
  assumes "store_inv st"
    and "ed \<in> set (g_edges (get_combined_graph_data st))"
    and "\<not> startswith (e_id ed) ''rel_''"
  shows "e_source ed \<notin> deleted_sample_nodes st \<and> e_target ed \<notin> deleted_sample_nodes st"
proof -
  have "\<forall>g \<in> set (generated_edges st). startswith (e_id g) ''rel_''"
    using assms(1) by (simp add: store_inv_def list_all_iff)
  with assms(3) have "ed \<notin> set (generated_edges st)" by blast
  with assms(2) show ?thesis by (auto simp: get_combined_graph_data_def Let_def)
qed

lemma delete_apple_view:
  assumes inv: "store_inv st"
    and t: "''tim_cook'' \<notin> deleted_sample_nodes st"
    and a: "''apple'' \<notin> deleted_sample_nodes st"
    and c: "''cupertino'' \<notin> deleted_sample_nodes st"
  shows "length (g_nodes (get_combined_graph_data st)) =
           length (g_nodes (get_combined_graph_data (snd (delete_node ''apple'' st)))) + 1"
    and "length (g_edges (get_combined_graph_data st)) =
           length (g_edges (get_combined_graph_data (snd (delete_node ''apple'' st)))) + 2"
proof -
  let ?D = "deleted_sample_nodes st"
  have s: "''apple'' \<in> set (map n_id sample_nodes)" by (simp add: sample_nodes_def)
  have gn: "filter (\<lambda>nd. n_id nd \<noteq> ''apple'') (generated_nodes st) = generated_nodes st"
    using filter_none_keeps_all [OF store_inv_no_apple(1) [OF inv]] by simp
  have ge: "filter (\<lambda>ed. e_source ed \<noteq> ''apple'' \<and> e_target ed \<noteq> ''apple'') (generated_edges st) =
            generated_edges st"
    using filter_none_keeps_all [OF store_inv_no_apple(2) [OF inv]] by (simp add: touches_def)
  have n1: "length (filter (\<lambda>nd. n_id nd \<notin> ?D \<and> n_id nd = ''apple'') sample_nodes) = 1"
    using a by (simp add: sample_nodes_def)
  have e2: "length (filter (\<lambda>ed. (e_source ed \<notin> ?D \<and> e_target ed \<notin> ?D) \<and> touches ''apple'' ed)
                      sample_edges) = 2"
    using t a c by (simp add: sample_edges_def touches_def)
  have nsplit: "length (filter (\<lambda>nd. n_id nd \<notin> ?D) sample_nodes) =
      length (filter (\<lambda>nd. n_id nd \<notin> ?D \<and> \<not> n_id nd = ''apple'') sample_nodes) +
      length (filter (\<lambda>nd. n_id nd \<notin> ?D \<and> n_id nd = ''apple'') sample_nodes)"
    by (rule filter_split_length)
  have esplit: "length (filter (\<lambda>ed. e_source ed \<notin> ?D \<and> e_target ed \<notin> ?D) sample_edges) =
      length (filter (\<lambda>ed. (e_source ed \<notin> ?D \<and> e_target ed \<notin> ?D) \<and> \<not> touches ''apple'' ed) sample_edges) +
      length (filter (\<lambda>ed. (e_source ed \<notin> ?D \<and> e_target ed \<notin> ?D) \<and> touches ''apple'' ed) sample_edges)"
    by (rule filter_split_length)
  have nafter: "filter (\<lambda>nd. n_id nd \<notin> insert ''apple'' ?D) sample_nodes =
                filter (\<lambda>nd. n_id nd \<notin> ?D \<and> \<not> n_id nd = ''apple'') sample_nodes"
    by (rule filter_cong) auto
  have eafter: "filter (\<lambda>ed. e_source ed \<notin> insert ''apple'' ?D \<and> e_target ed \<notin> insert ''apple'' ?D) sample_edges =
                filter (\<lambda>ed. (e_source ed \<notin> ?D \<and> e_target ed \<notin> ?D) \<and> \<not> touches ''apple'' ed) sample_edges"
    by (rule filter_cong) (auto simp: touches_def)
  show "length (g_nodes (get_combined_graph_data st)) =
           length (g_nodes (get_combined_graph_data (snd (delete_node ''apple'' st)))) + 1"
    using s gn nsplit n1 nafter
    by (simp add: delete_node_def get_combined_graph_data_def Let_def)
  show "length (g_edges (get_combined_graph_data st)) =
           length (g_edges (get_combined_graph_data (snd (delete_node ''apple'' st)))) + 2"
    using s ge esplit e2 eafter
    by (simp add: delete_node_def get_combined_graph_data_def Let_def)
qed

text \<open>
  Claim C5, as the code has it. In a store built by \<open>generate_graph_from_text\<close>,
  \<open>delete_node\<close> and \<open>clear_all_graph_data\<close> calls whose combined view shows both seed
  edges at \<open>apple\<close>, \<open>tim_cook --CEO_OF--> apple\<close> and
  \<open>apple --HEADQUARTERED_IN--> cupertino\<close>, the call \<open>delete_node("apple")\<close> takes one node
  and two edges out of the combined view and returns \<open>nodes_removed = 1\<close> and
  \<open>edges_removed = 2\<close>. Afterwards the combined view holds neither the node \<open>apple\<close> nor
  an edge that touches it.
\<close>

theorem delete_apple_removes_both_visible_seed_edges:
  assumes "tim_cook_ceo_of_apple \<in> set (g_edges (get_combined_graph_data (run spacy calls initial_state)))"
    and "apple_headquartered_in_cupertino \<in> set (g_edges (get_combined_graph_data (run spacy calls initial_state)))"
  shows "fst (delete_node ''apple'' (run spacy calls initial_state)) =
           \<lparr>nodes_removed = 1, edges_removed = 2\<rparr> \<and>
         length (g_nodes (get_combined_graph_data (run spacy calls initial_state))) =
           length (g_nodes (get_combined_graph_data
              (snd (delete_node ''apple'' (run spacy calls initial_state))))) + 1 \<and>
         length (g_edges (get_combined_graph_data (run spacy calls initial_state))) =
           length (g_edges (get_combined_graph_data
              (snd (delete_node ''apple'' (run spacy calls initial_state))))) + 2 \<and>
         ''apple'' \<notin> n_id ` set (g_nodes (get_combined_graph_data
            (snd (delete_node ''apple'' (run spacy calls initial_state))))) \<and>
         list_all (\<lambda>ed. \<not> touches ''apple'' ed) (g_edges (get_combined_graph_data
            (snd (delete_node ''apple'' (run spacy calls initial_state)))))"
proof -
  let ?st = "run spacy calls initial_state"
  have inv: "store_inv ?st" by (rule store_inv_run)
  have v1: "e_source tim_cook_ceo_of_apple \<notin> deleted_sample_nodes ?st \<and>
            e_target tim_cook_ceo_of_apple \<notin> deleted_sample_nodes ?st"
    by (rule seed_edge_visible [OF inv assms(1)]) (simp add: tim_cook_ceo_of_apple_def)
  have v2: "e_source apple_headquartered_in_cupertino \<notin> deleted_sample_nodes ?st \<and>
            e_target apple_headquartered_in_cupertino \<notin> deleted_sample_nodes ?st"
    by (rule seed_edge_visible [OF inv assms(2)]) (simp add: apple_headquartered_in_cupertino_def)
  from v1 have t: "''tim_cook'' \<notin> deleted_sample_nodes ?st" and a: "''apple'' \<notin> deleted_sample_nodes ?st"
    by (simp_all add: tim_cook_ceo_of_apple_def)
  from v2 have c: "''cupertino'' \<notin> deleted_sample_nodes ?st"
    by (simp add: apple_headquartered_in_cupertino_def)
  show ?thesis
    using delete_node_apple_counts [of ?st] store_inv_no_apple [OF inv]
      delete_apple_view [OF inv t a c] delete_node_hides [of ?st]
    by simp
qed

text \<open>The same after the seed node \<open>tesla\<close> was deleted from the initial store.\<close>

theorem delete_apple_removes_both_visible_seed_edges_witness:
  "tim_cook_ceo_of_apple \<in> set (g_edges (get_combined_graph_data (run no_spacy [DeleteNode ''tesla''] initial_state))) \<and>
   apple_headquartered_in_cupertino \<in> set (g_edges (get_combined_graph_data (run no_spacy [DeleteNode ''tesla''] initial_state))) \<and>
   fst (delete_node ''apple'' (run no_spacy [DeleteNode ''tesla''] initial_state)) =
     \<lparr>nodes_removed = 1, edges_removed = 2\<rparr> \<and>
   length (g_edges (get_combined_graph_data (run no_spacy [DeleteNode ''tesla''] initial_state))) = 8 \<and>
   length (g_edges (get_combined_graph_data
      (snd (delete_node ''apple'' (run no_spacy [DeleteNode ''tesla''] initial_state))))) + 2 = 8 \<and>
   length (g_nodes (get_combined_graph_data (run no_spacy [DeleteNode ''tesla''] initial_state))) = 12 \<and>
   length (g_nodes (get_combined_graph_data
      (snd (delete_node ''apple'' (run no_spacy [DeleteNode ''tesla''] initial_state))))) + 1 = 12"
proof -
  let ?st = "run no_spacy [DeleteNode ''tesla''] initial_state"
  have h1: "tim_cook_ceo_of_apple \<in> set (g_edges (get_combined_graph_data ?st))" by code_simp
  have h2: "apple_headquartered_in_cupertino \<in> set (g_edges (get_combined_graph_data ?st))" by code_simp
  have l1: "length (g_edges (get_combined_graph_data ?st)) = 8" by code_simp
  have l2: "length (g_nodes (get_combined_graph_data ?st)) = 12" by code_simp
  note T = delete_apple_removes_both_visible_seed_edges [OF h1 h2]
  from T have r: "fst (delete_node ''apple'' ?st) = \<lparr>nodes_removed = 1, edges_removed = 2\<rparr>" by blast
  from T l1 have e: "length (g_edges (get_combined_graph_data (snd (delete_node ''apple'' ?st)))) + 2 = 8"
    by simp
  from T l2 have n: "length (g_nodes (get_combined_graph_data (snd (delete_node ''apple'' ?st)))) + 1 = 12"
    by simp
  from h1 h2 r l1 e l2 n show ?thesis by blast
qed

text \<open>
  Claim C5 as stated fails in the initial store: the seed edge \<open>e1\<close> is visible and the
  call reports two removed edges, not one, since \<open>e2\<close> is visible and removed as well.
\<close>

theorem delete_apple_reports_two_edges:
  "tim_cook_ceo_of_apple \<in> set (g_edges (get_combined_graph_data initial_state)) \<and>
   nodes_removed (fst (delete_node ''apple'' initial_state)) = 1 \<and>
   edges_removed (fst (delete_node ''apple'' initial_state)) = 2 \<and>
   edges_removed (fst (delete_node ''apple'' initial_state)) \<noteq> 1"
  by (simp add: delete_node_apple_counts tim_cook_ceo_of_apple_def initial_state_def
      get_combined_graph_data_def sample_edges_def)

section \<open>Duplicate ids in the combined view\<close>

lemma combined_distinct:
  assumes "store_inv st"
  shows "distinct (map n_id (g_nodes (get_combined_graph_data st)))"
    and "distinct (map e_id (g_edges (get_combined_graph_data st)))"
proof -
  have n: "\<forall>nd \<in> set (generated_nodes st). startswith (n_id nd) ''extracted_''"
    and e: "\<forall>ed \<in> set (generated_edges st). startswith (e_id ed) ''rel_''"
    and dn: "distinct (map n_id (generated_nodes st))"
    and de: "distinct (map e_id (generated_edges st))"
    using assms by (simp_all add: store_inv_def list_all_iff)
  have "n_id ` set sample_nodes \<inter> n_id ` set (generated_nodes st) = {}"
    using n sample_nodes_not_extracted by fastforce
  then show "distinct (map n_id (g_nodes (get_combined_graph_data st)))"
    using dn sample_nodes_distinct
    by (auto simp: get_combined_graph_data_def Let_def distinct_map_filter)
  have "e_id ` set sample_edges \<inter> e_id ` set (generated_edges st) = {}"
    using e sample_edges_not_rel by fastforce
  then show "distinct (map e_id (g_edges (get_combined_graph_data st)))"
    using de sample_edges_distinct
    by (auto simp: get_combined_graph_data_def Let_def distinct_map_filter)
qed

text \<open>
  Claim C7, as the code has it. \<open>get_combined_graph_data\<close> concatenates the seed items that
  are not tombstoned and the generated items, and runs no deduplication. In every store
  built by \<open>generate_graph_from_text\<close>, \<open>delete_node\<close> and \<open>clear_all_graph_data\<close> calls
  the two lists it returns hold no id twice, so deduplicating them by id would change
  nothing.
\<close>

theorem combined_view_ids_distinct_when_reachable:
  "distinct (map n_id (g_nodes (get_combined_graph_data (run spacy calls initial_state)))) \<and>
   distinct (map e_id (g_edges (get_combined_graph_data (run spacy calls initial_state)))) \<and>
   deduplicate_list_by_id n_id (g_nodes (get_combined_graph_data (run spacy calls initial_state))) =
     g_nodes (get_combined_graph_data (run spacy calls initial_state)) \<and>
   deduplicate_list_by_id e_id (g_edges (get_combined_graph_data (run spacy calls initial_state))) =
     g_edges (get_combined_graph_data (run spacy calls initial_state)) \<and>
   g_nodes (get_combined_graph_data (run spacy calls initial_state)) =
     filter (\<lambda>nd. n_id nd \<notin> deleted_sample_nodes (run spacy calls initial_state)) sample_nodes @
     generated_nodes (run spacy calls initial_state) \<and>
   g_edges (get_combined_graph_data (run spacy calls initial_state)) =
     filter (\<lambda>ed. e_source ed \<notin> deleted_sample_nodes (run spacy calls initial_state) \<and>
                   e_target ed \<notin> deleted_sample_nodes (run spacy calls initial_state)) sample_edges @
     generated_edges (run spacy calls initial_state)"
  using combined_distinct [OF store_inv_run [of spacy calls]]
  by (simp add: dedup_id) (simp add: get_combined_graph_data_def Let_def)

text \<open>The same after one deletion in the initial store.\<close>

theorem combined_view_ids_distinct_when_reachable_witness:
  "map n_id (g_nodes (get_combined_graph_data (run no_spacy [DeleteNode ''apple''] initial_state))) =
     [''tim_cook'', ''cupertino'', ''elon_musk'', ''spacex'', ''tesla'', ''mark_zuckerberg'', ''meta'',
      ''facebook'', ''instagram'', ''harvard_generated'', ''research_generated'', ''education_generated''] \<and>
   distinct (map n_id (g_nodes (get_combined_graph_data (run no_spacy [DeleteNode ''apple''] initial_state)))) \<and>
   distinct (map e_id (g_edges (get_combined_graph_data (run no_spacy [DeleteNode ''apple''] initial_state))))"
proof -
  have "map n_id (g_nodes (get_combined_graph_data (run no_spacy [DeleteNode ''apple''] initial_state))) =
     [''tim_cook'', ''cupertino'', ''elon_musk'', ''spacex'', ''tesla'', ''mark_zuckerberg'', ''meta'',
      ''facebook'', ''instagram'', ''harvard_generated'', ''research_generated'', ''education_generated'']"
    by code_simp
  then show ?thesis
    using combined_view_ids_distinct_when_reachable [of no_spacy "[DeleteNode ''apple'']"]
    by blast
qed

text \<open>
  Claim C7 as stated, for every store state, fails: when the generated list holds a node
  with the id of a seed node, the combined view returns both.
\<close>

theorem combined_view_keeps_duplicate_ids:
  "map n_id (g_nodes (get_combined_graph_data shadow_store)) =
     map n_id sample_nodes @ [''apple''] \<and>
   \<not> distinct (map n_id (g_nodes (get_combined_graph_data shadow_store))) \<and>
   deduplicate_list_by_id n_id (g_nodes (get_combined_graph_data shadow_store)) \<noteq>
     g_nodes (get_combined_graph_data shadow_store)"
proof -
  have a: "map n_id (g_nodes (get_combined_graph_data shadow_store)) = map n_id sample_nodes @ [''apple'']"
    by (simp add: get_combined_graph_data_def shadow_store_def)
  have b: "\<not> distinct (map n_id (g_nodes (get_combined_graph_data shadow_store)))"
    unfolding a by (simp add: sample_nodes_def)
  have "distinct (map n_id (deduplicate_list_by_id n_id (g_nodes (get_combined_graph_data shadow_store))))"
    by (rule dedup_distinct)
  with b have c: "deduplicate_list_by_id n_id (g_nodes (get_combined_graph_data shadow_store)) \<noteq>
     g_nodes (get_combined_graph_data shadow_store)" by metis
  from a b c show ?thesis by blast
qed

section \<open>The response of an import and the tombstones\<close>

lemma dedup_starts_with:
  "distinct (map key xs) \<Longrightarrow> take (length xs) (deduplicate_list_by_id key (xs @ ys)) = xs"
  unfolding deduplicate_list_by_id_def using dedup_loop_append [of key xs "{}" ys] by simp

lemma combined_filter_tombstoned:
  "x \<in> deleted_sample_nodes st \<Longrightarrow>
   filter (\<lambda>m. n_id m = x) (g_nodes (get_combined_graph_data st)) =
   filter (\<lambda>m. n_id m = x) (generated_nodes st)"
  by (auto simp: get_combined_graph_data_def Let_def filter_empty_conv)

text \<open>
  Claim C10. When the id of a seed node is in \<open>deleted_sample_nodes\<close>, the node list that
  \<open>generate_graph_from_text\<close> returns still contains that seed node: the response is the
  whole seed list followed by the generated nodes, deduplicated by id, with no tombstone
  filter. \<open>get_combined_graph_data\<close>, before and after the call, shows under that id only
  what the generated list holds.
\<close>

theorem import_response_keeps_tombstoned_seed_nodes:
  assumes "nd \<in> set sample_nodes" and "n_id nd \<in> deleted_sample_nodes st"
  shows "nd \<in> set (res_nodes (fst (generate_graph_from_text spacy t tid uid st))) \<and>
         take (length sample_nodes) (res_nodes (fst (generate_graph_from_text spacy t tid uid st))) =
           sample_nodes \<and>
         res_nodes (fst (generate_graph_from_text spacy t tid uid st)) =
           deduplicate_list_by_id n_id
             (sample_nodes @ generated_nodes (snd (generate_graph_from_text spacy t tid uid st))) \<and>
         filter (\<lambda>m. n_id m = n_id nd) (g_nodes (get_combined_graph_data st)) =
           filter (\<lambda>m. n_id m = n_id nd) (generated_nodes st) \<and>
         filter (\<lambda>m. n_id m = n_id nd)
             (g_nodes (get_combined_graph_data (snd (generate_graph_from_text spacy t tid uid st)))) =
           filter (\<lambda>m. n_id m = n_id nd)
             (generated_nodes (snd (generate_graph_from_text spacy t tid uid st)))"
proof -
  let ?ext = "extract_entities_and_relationships spacy t"
  let ?st' = "snd (merge_extracted ?ext tid uid st)"
  have r: "res_nodes (fst (merge_extracted ?ext tid uid st)) =
             deduplicate_list_by_id n_id (sample_nodes @ generated_nodes ?st')"
    by (rule merge_res_nodes)
  have tk: "take (length sample_nodes) (res_nodes (fst (merge_extracted ?ext tid uid st))) = sample_nodes"
    unfolding r by (rule dedup_starts_with [OF sample_nodes_distinct])
  have mem: "nd \<in> set (res_nodes (fst (merge_extracted ?ext tid uid st)))"
    unfolding r using dedup_prefix [OF sample_nodes_distinct] assms(1) by blast
  have d: "n_id nd \<in> deleted_sample_nodes ?st'"
    using assms(2) by (simp add: merge_deleted)
  show ?thesis
    unfolding generate_graph_from_text_def
    using r tk mem combined_filter_tombstoned [OF assms(2)] combined_filter_tombstoned [OF d]
    by simp
qed

text \<open>The same for the seed node \<open>apple\<close>, deleted from the initial store.\<close>

theorem import_response_keeps_tombstoned_seed_nodes_witness:
  "\<lparr>n_id = ''apple'', n_label = ''Apple Inc'', n_type = ''ORGANIZATION'',
     n_props = [(''industry'', PStr ''Technology'')]\<rparr> \<in> set sample_nodes \<and>
   ''apple'' \<in> deleted_sample_nodes (snd (delete_node ''apple'' initial_state)) \<and>
   \<lparr>n_id = ''apple'', n_label = ''Apple Inc'', n_type = ''ORGANIZATION'',
     n_props = [(''industry'', PStr ''Technology'')]\<rparr>
     \<in> set (res_nodes (fst (generate_graph_from_text no_spacy ''Tim Cook'' None None
                               (snd (delete_node ''apple'' initial_state))))) \<and>
   filter (\<lambda>m. n_id m = ''apple'')
     (g_nodes (get_combined_graph_data (snd (delete_node ''apple'' initial_state)))) = []"
proof -
  let ?nd = "\<lparr>n_id = ''apple'', n_label = ''Apple Inc'', n_type = ''ORGANIZATION'',
               n_props = [(''industry'', PStr ''Technology'')]\<rparr>"
  let ?st = "snd (delete_node ''apple'' initial_state)"
  have h1: "?nd \<in> set sample_nodes" by (simp add: sample_nodes_def)
  have h2: "n_id ?nd \<in> deleted_sample_nodes ?st"
    by (simp add: delete_node_def Let_def sample_nodes_def)
  have g: "generated_nodes ?st = []"
    by (simp add: delete_node_def Let_def initial_state_def)
  note T = import_response_keeps_tombstoned_seed_nodes [OF h1 h2, of no_spacy "''Tim Cook''" None None]
  from T have A: "?nd \<in> set (res_nodes (fst (generate_graph_from_text no_spacy ''Tim Cook'' None None ?st)))"
    by blast
  from T have "filter (\<lambda>m. n_id m = n_id ?nd) (g_nodes (get_combined_graph_data ?st)) =
               filter (\<lambda>m. n_id m = n_id ?nd) (generated_nodes ?st)"
    by blast
  with g have B: "filter (\<lambda>m. n_id m = ''apple'') (g_nodes (get_combined_graph_data ?st)) = []"
    by simp
  from h2 have h2': "''apple'' \<in> deleted_sample_nodes ?st" by simp
  from h1 h2' A B show ?thesis by blast
qed

section \<open>\<open>import_text\<close> installs a graph written in the code\<close>











section \<open>Texts without an upper-case letter\<close>

lemma finditer_from_text:
  "m \<in> set (finditer_from ic r i p s) \<Longrightarrow> set (m_text m) \<subseteq> set s"
proof (induction ic r i p s arbitrary: m rule: finditer_from.induct)
  case (1 ic r i p s)
  show ?case
  proof (cases "match_here ic r p s")
    case None
    show ?thesis
    proof (cases s)
      case Nil
      with None "1.prems" show ?thesis by (simp add: finditer_from.simps [of ic r i p "[]"])
    next
      case (Cons c s')
      with None "1.prems" have "m \<in> set (finditer_from ic r (i + 1) (Some c) s')"
        by (simp add: finditer_from.simps [of ic r i p "c # s'"])
      from "1.IH"(1) [OF None Cons this] show ?thesis using Cons by auto
    qed
  next
    case (Some ng)
    obtain n g where ng: "ng = (n, g)" by (cases ng)
    show ?thesis
    proof (cases "s = []")
      case True
      with Some ng "1.prems" show ?thesis by (simp add: finditer_from.simps [of ic r i p s])
    next
      case False
      with Some ng "1.prems" have
        "m = \<lparr>m_start = i, m_text = take n s, m_groups = g\<rparr> \<or>
         m \<in> set (finditer_from ic r (i + max n 1) (Some (s ! (max n 1 - 1))) (drop (max n 1) s))"
        by (simp add: finditer_from.simps [of ic r i p s] Let_def)
      then show ?thesis
      proof
        assume "m = \<lparr>m_start = i, m_text = take n s, m_groups = g\<rparr>"
        then show ?thesis by (auto dest: in_set_takeD)
      next
        assume "m \<in> set (finditer_from ic r (i + max n 1) (Some (s ! (max n 1 - 1))) (drop (max n 1) s))"
        from "1.IH"(2) [OF Some ng [symmetric] False refl this]
        show ?thesis by (auto dest: in_set_dropD)
      qed
    qed
  qed
qed

lemma strip_subset: "set (strip s) \<subseteq> set s"
proof -
  have "set (strip s) \<subseteq> set (rev (dropWhile isspace s))"
    unfolding strip_def using set_dropWhileD [of _ isspace "rev (dropWhile isspace s)"] by auto
  also have "\<dots> \<subseteq> set s" using set_dropWhileD [of _ isspace s] by auto
  finally show ?thesis .
qed

lemma match_loop_plausible:
  assumes "\<forall>m \<in> set ms. set (m_text m) \<subseteq> set text"
    and "ty \<in> fst ` set entity_patterns"
    and "\<forall>e \<in> set acc. plausible text e"
  shows "\<forall>e \<in> set (match_loop ty ms acc). plausible text e"
  using assms
proof (induction ms arbitrary: acc)
  case Nil
  then show ?case by simp
next
  case (Cons m ms)
  have sub: "set (strip (m_text m)) \<subseteq> set text"
    using strip_subset [of "m_text m"] Cons.prems(1) by auto
  show ?case
  proof (cases "entity_filter (strip (m_text m)) ty")
    case True
    then have mean: "is_meaningful_entity (strip (m_text m)) ty"
      by (simp add: entity_filter_def Let_def)
    let ?e = "\<lparr>ent_id = length acc, name = strip (m_text m), etype = ty,
                position = int (m_start m),
                confidence = calculate_confidence (strip (m_text m)) ty\<rparr>"
    have "plausible text ?e" using mean sub Cons.prems(2) by (simp add: plausible_def)
    then have "\<forall>e \<in> set (acc @ [?e]). plausible text e" using Cons.prems(3) by auto
    from Cons.IH [OF _ Cons.prems(2) this] Cons.prems(1) True show ?thesis by (simp add: Let_def)
  next
    case False
    from Cons.IH [OF _ Cons.prems(2) Cons.prems(3)] Cons.prems(1) False show ?thesis
      by (simp add: Let_def)
  qed
qed

lemma pattern_loop_plausible:
  assumes "ty \<in> fst ` set entity_patterns"
    and "\<forall>e \<in> set acc. plausible text e"
  shows "\<forall>e \<in> set (pattern_loop text ty ps acc). plausible text e"
  using assms
proof (induction ps arbitrary: acc)
  case Nil
  then show ?case by simp
next
  case (Cons p ps)
  have "\<forall>m \<in> set (finditer True p text). set (m_text m) \<subseteq> set text"
    unfolding finditer_def using finditer_from_text by blast
  from match_loop_plausible [OF this Cons.prems(1) Cons.prems(2)]
  have "\<forall>e \<in> set (match_loop ty (finditer True p text) acc). plausible text e" .
  from Cons.IH [OF Cons.prems(1) this] show ?case by simp
qed

lemma type_loop_plausible:
  assumes "set tps \<subseteq> set entity_patterns"
    and "\<forall>e \<in> set acc. plausible text e"
  shows "\<forall>e \<in> set (type_loop text tps acc). plausible text e"
  using assms
proof (induction tps arbitrary: acc)
  case Nil
  then show ?case by simp
next
  case (Cons tp tps)
  obtain ty ps where tp: "tp = (ty, ps)" by (cases tp)
  have "ty \<in> fst ` set entity_patterns" using Cons.prems(1) tp by force
  from pattern_loop_plausible [OF this Cons.prems(2)]
  have "\<forall>e \<in> set (pattern_loop text ty ps acc). plausible text e" .
  from Cons.IH [OF _ this] Cons.prems(1) show ?case unfolding tp by simp
qed

lemma candidates_plausible: "\<forall>e \<in> set (candidates text). plausible text e"
  unfolding candidates_def by (rule type_loop_plausible) simp_all

lemma any_upper_mono: "set a \<subseteq> set b \<Longrightarrow> any_upper a \<Longrightarrow> any_upper b"
  by (auto simp: any_upper_def list_ex_iff)

lemma entity_types: "fst ` set entity_patterns = {''PERSON'', ''ORGANIZATION'', ''LOCATION'', ''TECHNOLOGY''}"
  by (simp add: entity_patterns_def insert_commute)

text \<open>
  Claim C6, as the code has it. All patterns are matched with \<open>re.IGNORECASE\<close>, and only
  the PERSON, ORGANIZATION and LOCATION checks of \<open>_is_meaningful_entity\<close> ask for an
  upper-case letter. So for a text without an upper-case letter every entity that
  \<open>extract_entities\<close> returns has type TECHNOLOGY; the list need not be empty.
\<close>

theorem lowercase_text_yields_only_technology:
  assumes "\<not> any_upper text"
  shows "\<forall>e \<in> set (extract_entities text). etype e = ''TECHNOLOGY''"
proof
  fix e assume "e \<in> set (extract_entities text)"
  then have "e \<in> set (candidates text)"
    unfolding extract_entities_def using unique_loop_fresh by blast
  then have pl: "plausible text e" using candidates_plausible by blast
  then have "\<not> any_upper (name e)" using assms any_upper_mono unfolding plausible_def by blast
  moreover have "is_meaningful_entity (name e) (etype e)" using pl by (simp add: plausible_def)
  ultimately have "etype e \<noteq> ''PERSON'' \<and> etype e \<noteq> ''ORGANIZATION'' \<and> etype e \<noteq> ''LOCATION''"
    by (auto simp: is_meaningful_entity_def split: if_splits)
  moreover have "etype e \<in> {''PERSON'', ''ORGANIZATION'', ''LOCATION'', ''TECHNOLOGY''}"
    using pl unfolding plausible_def entity_types by blast
  ultimately show "etype e = ''TECHNOLOGY''" by blast
qed

text \<open>The same at the text \<open>python\<close>, which yields one entity.\<close>

theorem lowercase_text_yields_only_technology_witness:
  "\<not> any_upper ''python'' \<and> extract_entities ''python'' \<noteq> [] \<and>
   etype (hd (extract_entities ''python'')) = ''TECHNOLOGY''"
proof -
  have h: "\<not> any_upper ''python''" by code_simp
  have ev: "extract_entities ''python'' \<noteq> []" by code_simp
  then have "hd (extract_entities ''python'') \<in> set (extract_entities ''python'')" by simp
  with h ev lowercase_text_yields_only_technology [OF h] show ?thesis by blast
qed

text \<open>
  Claim C6 as stated fails at the text \<open>python\<close>: it has no upper-case letter, the second
  TECHNOLOGY pattern matches it, its confidence is \<open>0.5 + 0.1\<close>, which meets the threshold,
  and the import reports one entity.
\<close>

theorem lowercase_python_is_an_entity:
  "\<not> any_upper ''python'' \<and>
   extract_entities ''python'' =
     [\<lparr>ent_id = 0, name = ''python'', etype = ''TECHNOLOGY'', position = 0, confidence = 0.6\<rparr>] \<and>
   entities_created (fst (generate_graph_from_text no_spacy ''python'' None None initial_state)) = 1"
  by code_simp

end
